theory Spec2Isabelle
  imports Main "HOL-Library.Sublist" "HOL-Library.List_Lexorder" "HOL-Library.AList"
begin

section \<open>Python text\<close>

text \<open>
  A Python \<open>str\<close> is a sequence of Unicode code points, and the regular expressions and
  \<open>str.strip\<close> of \<open>generate_articles.py\<close> classify code points (\<open>\s\<close> is Unicode
  white space). A character is therefore modelled as its code point and a string as the
  list of its code points; \<open>ustr\<close> turns an ASCII literal into such a list.
\<close>

type_synonym uchar = nat
type_synonym ustring = "uchar list"

definition ustr :: "string \<Rightarrow> ustring" where
  "ustr s = map of_char s"

abbreviation (input) NL :: uchar where "NL \<equiv> 10"
abbreviation (input) HYPHEN :: uchar where "HYPHEN \<equiv> 45"

text \<open>
  \<open>str.isspace\<close> for one code point, which is also what \<open>\s\<close> matches in a \<open>str\<close>
  pattern: U+0009..U+000D, U+001C..U+0020, U+0085, U+00A0, U+1680, U+2000..U+200A, U+2028,
  U+2029, U+202F, U+205F and U+3000.
\<close>

definition is_space :: "uchar \<Rightarrow> bool" where
  "is_space c \<longleftrightarrow>
     (9 \<le> c \<and> c \<le> 13) \<or> (28 \<le> c \<and> c \<le> 32) \<or> c = 133 \<or> c = 160 \<or> c = 5760 \<or>
     (8192 \<le> c \<and> c \<le> 8202) \<or> c = 8232 \<or> c = 8233 \<or> c = 8239 \<or> c = 8287 \<or> c = 12288"

definition is_digit :: "uchar \<Rightarrow> bool" where
  "is_digit c \<longleftrightarrow> 48 \<le> c \<and> c \<le> 57"

text \<open>
  \<open>re.sub(r'X+', rep, s)\<close> for a character class \<open>X\<close>: every maximal run of characters of
  the class is replaced by \<open>rep\<close>, scanning from the left.
\<close>

function sub_runs :: "(uchar \<Rightarrow> bool) \<Rightarrow> ustring \<Rightarrow> ustring \<Rightarrow> ustring" where
  "sub_runs P rep [] = []"
| "sub_runs P rep (c # cs) =
     (if P c then rep @ sub_runs P rep (dropWhile P cs) else c # sub_runs P rep cs)"
  by pat_completeness auto
termination
  by (relation "measure (\<lambda>(P, rep, s). length s)")
     (auto simp: length_dropWhile_le le_imp_less_Suc)

text \<open>\<open>s.strip(chars)\<close>: the characters of the class are dropped at both ends.\<close>

definition strip_chars :: "(uchar \<Rightarrow> bool) \<Rightarrow> ustring \<Rightarrow> ustring" where
  "strip_chars P s = rev (dropWhile P (rev (dropWhile P s)))"

text \<open>Decimal numerals, and \<open>%02d\<close>-style zero padding to a minimum width.\<close>

fun decimal :: "nat \<Rightarrow> ustring" where
  "decimal n = (if n < 10 then [48 + n] else decimal (n div 10) @ [48 + n mod 10])"

declare decimal.simps [simp del]

definition zfill :: "nat \<Rightarrow> nat \<Rightarrow> ustring" where
  "zfill w n = replicate (w - length (decimal n)) 48 @ decimal n"

definition str_int :: "int \<Rightarrow> ustring" where
  "str_int i = (if i < 0 then HYPHEN # decimal (nat (- i)) else decimal (nat i))"

section \<open>Date and time values\<close>

text \<open>
  A \<open>datetime.datetime\<close> value, as far as \<open>strftime\<close> reads it: the calendar fields and
  the UTC offset in seconds (\<open>None\<close> for a naive value). The formats \<open>%m\<close>, \<open>%d\<close>, \<open>%H\<close>,
  \<open>%M\<close> and \<open>%S\<close> print the fields in decimal, zero-padded to 2 digits. What \<open>%Y\<close> prints
  for a year below 1000 depends on the C library: some pad the year to four digits, others
  (glibc) print it as it is. The flag \<open>pad\<close> of the formatting functions says which; for the
  years 1000 to 9999 both print the same four digits.
\<close>

record datetime =
  year :: nat
  month :: nat
  day :: nat
  hour :: nat
  minute :: nat
  second :: nat
  utcoffset :: "int option"

definition valid_datetime :: "datetime \<Rightarrow> bool" where
  "valid_datetime d \<longleftrightarrow>
     1000 \<le> year d \<and> year d \<le> 9999 \<and> 1 \<le> month d \<and> month d \<le> 12 \<and>
     1 \<le> day d \<and> day d \<le> 31 \<and> hour d < 24 \<and> minute d < 60 \<and> second d < 60"

definition strftime_Y :: "bool \<Rightarrow> nat \<Rightarrow> ustring" where
  "strftime_Y pad y = (if pad then zfill 4 y else decimal y)"

text \<open>\<open>strftime('%Y%m%d-%H%M%S')\<close>, the format of the fallback name.\<close>

definition strftime_compact :: "bool \<Rightarrow> datetime \<Rightarrow> ustring" where
  "strftime_compact pad d =
     strftime_Y pad (year d) @ zfill 2 (month d) @ zfill 2 (day d) @ [HYPHEN] @
     zfill 2 (hour d) @ zfill 2 (minute d) @ zfill 2 (second d)"

section \<open>sanitize\_filename\<close>

text \<open>The class \<open>[<>:"/\\|?*]\<close> of the first substitution.\<close>

definition unsafe_chars :: "uchar list" where
  "unsafe_chars = [60, 62, 58, 34, 47, 92, 124, 63, 42]"

definition unsafe_char :: "uchar \<Rightarrow> bool" where
  "unsafe_char c \<longleftrightarrow> c \<in> set unsafe_chars"

text \<open>
  The four rewriting statements of \<open>sanitize_filename\<close> (lines 65 to 68): the unsafe
  characters are deleted, each run of white space becomes one hyphen, each run of hyphens
  becomes one hyphen, and hyphens are stripped at both ends.
\<close>

definition clean_title :: "ustring \<Rightarrow> ustring" where
  "clean_title title =
     (let filename = filter (\<lambda>c. \<not> unsafe_char c) title;
          filename = sub_runs is_space [HYPHEN] filename;
          filename = sub_runs (\<lambda>c. c = HYPHEN) [HYPHEN] filename
      in strip_chars (\<lambda>c. c = HYPHEN) filename)"

text \<open>
  \<open>sanitize_filename\<close>; \<open>now\<close> is what \<open>datetime.datetime.now()\<close> returns when the
  fallback branch reads the clock, and \<open>pad\<close> is the platform's way with \<open>%Y\<close>.
\<close>

definition sanitize_filename :: "bool \<Rightarrow> datetime \<Rightarrow> ustring \<Rightarrow> ustring" where
  "sanitize_filename pad now title =
     (let filename = clean_title title
      in if filename = [] then ustr ''article-'' @ strftime_compact pad now else filename)"

text \<open>
  Shapes of names. \<open>no_dd\<close>: no two hyphens in a row. \<open>tidy\<close>: what the four rewriting
  statements leave behind. \<open>matches_article_14\<close> is the pattern \<open>article-\<close> followed by
  fourteen digits; \<open>matches_article_8_6\<close> is \<open>article-\<close>, eight digits, a hyphen and six
  digits.
\<close>

definition no_dd :: "ustring \<Rightarrow> bool" where
  "no_dd s \<longleftrightarrow> \<not> sublist [HYPHEN, HYPHEN] s"

definition tidy :: "ustring \<Rightarrow> bool" where
  "tidy s \<longleftrightarrow> (\<forall>c \<in> set s. \<not> unsafe_char c \<and> \<not> is_space c) \<and> no_dd s \<and>
     (s = [] \<or> (hd s \<noteq> HYPHEN \<and> last s \<noteq> HYPHEN))"

definition matches_article_14 :: "ustring \<Rightarrow> bool" where
  "matches_article_14 s \<longleftrightarrow>
     length s = 22 \<and> take 8 s = ustr ''article-'' \<and> list_all is_digit (drop 8 s)"

definition matches_article_8_6 :: "ustring \<Rightarrow> bool" where
  "matches_article_8_6 s \<longleftrightarrow>
     length s = 23 \<and> take 8 s = ustr ''article-'' \<and> list_all is_digit (take 8 (drop 8 s)) \<and>
     s ! 16 = HYPHEN \<and> list_all is_digit (drop 17 s)"

text \<open>A clock reading used as concrete input below.\<close>

definition clock0 :: datetime where
  "clock0 = \<lparr>year = 2023, month = 1, day = 15, hour = 10, minute = 30, second = 0, utcoffset = None\<rparr>"

section \<open>process\_markdown\<close>

abbreviation (input) BANG :: uchar where "BANG \<equiv> 33"
abbreviation (input) LPAREN :: uchar where "LPAREN \<equiv> 40"
abbreviation (input) RPAREN :: uchar where "RPAREN \<equiv> 41"
abbreviation (input) LBRACKET :: uchar where "LBRACKET \<equiv> 91"
abbreviation (input) RBRACKET :: uchar where "RBRACKET \<equiv> 93"

text \<open>
  \<open>s.split('\n')\<close> and \<open>'\n'.join(lines)\<close>. The split of a text always has at least one
  line, so the empty branch of the inner \<open>case\<close> of \<open>split_nl\<close> is never taken.
\<close>

fun split_nl :: "ustring \<Rightarrow> ustring list" where
  "split_nl [] = [[]]"
| "split_nl (c # cs) =
     (if c = NL then [] # split_nl cs
      else (case split_nl cs of [] \<Rightarrow> [[c]] | l # ls \<Rightarrow> (c # l) # ls))"

fun join_nl :: "ustring list \<Rightarrow> ustring" where
  "join_nl [] = []"
| "join_nl [l] = l"
| "join_nl (l # ls) = l @ NL # join_nl ls"

text \<open>
  The pattern \<open>!\[.*?\]\(.*?\)\<close>, matched at the head of a string; the result is the text
  after the match. \<open>find_close\<close> is \<open>.*?\)\<close>: the lazy \<open>.*?\<close> takes as few characters as
  possible, none of them a line feed, up to the first \<open>)\<close>. \<open>try_here\<close> is \<open>\]\(.*?\)\<close> at
  one position. \<open>find_mid\<close> is \<open>.*?\]\(.*?\)\<close>: it tries \<open>try_here\<close> at each position
  in turn, and where that fails it backtracks and lets \<open>.\<close> take one more character.
\<close>

fun find_close :: "ustring \<Rightarrow> ustring option" where
  "find_close [] = None"
| "find_close (c # cs) =
     (if c = RPAREN then Some cs else if c = NL then None else find_close cs)"

definition try_here :: "uchar \<Rightarrow> ustring \<Rightarrow> ustring option" where
  "try_here c cs =
     (if c = RBRACKET
      then (case cs of [] \<Rightarrow> None | d # ds \<Rightarrow> if d = LPAREN then find_close ds else None)
      else None)"

fun find_mid :: "ustring \<Rightarrow> ustring option" where
  "find_mid [] = None"
| "find_mid (c # cs) =
     (case try_here c cs of
        Some rest \<Rightarrow> Some rest
      | None \<Rightarrow> if c = NL then None else find_mid cs)"

fun match_image :: "ustring \<Rightarrow> ustring option" where
  "match_image (c # d # cs) = (if c = BANG \<and> d = LBRACKET then find_mid cs else None)"
| "match_image _ = None"

lemma find_close_shorter: "find_close s = Some r \<Longrightarrow> length r < length s"
  by (induction s) (auto split: if_splits)

lemma try_here_shorter: "try_here c cs = Some r \<Longrightarrow> length r < length cs"
  by (auto simp: try_here_def split: if_splits list.splits dest: find_close_shorter)

lemma find_mid_shorter: "find_mid s = Some r \<Longrightarrow> length r < length s"
proof (induction s)
  case Nil
  then show ?case by simp
next
  case (Cons c cs)
  show ?case
  proof (cases "try_here c cs")
    case (Some r')
    with Cons.prems have "r' = r" by simp
    with Some show ?thesis using try_here_shorter [of c cs r] by simp
  next
    case None
    with Cons.prems have "find_mid cs = Some r" by (simp split: if_splits)
    with Cons.IH show ?thesis by simp
  qed
qed

lemma match_image_shorter: "match_image s = Some r \<Longrightarrow> length r < length s"
proof (cases s rule: match_image.cases)
  case (1 c d cs)
  assume "match_image s = Some r"
  with 1 have "find_mid cs = Some r" by (simp split: if_splits)
  then have "length r < length cs" by (rule find_mid_shorter)
  with 1 show ?thesis by simp
qed simp_all

text \<open>
  \<open>re.sub(r'!\[.*?\]\(.*?\)', '', line)\<close>: scanning from the left, a match at the current
  position is dropped and the scan resumes after it; otherwise the character is kept.
\<close>

function strip_images :: "ustring \<Rightarrow> ustring" where
  "strip_images [] = []"
| "strip_images (c # cs) =
     (case match_image (c # cs) of
        Some rest \<Rightarrow> strip_images rest
      | None \<Rightarrow> c # strip_images cs)"
  by pat_completeness auto
termination
  by (relation "measure length") (auto dest: match_image_shorter)

text \<open>\<open>process_markdown\<close> (lines 124 to 138).\<close>

definition process_markdown :: "ustring \<Rightarrow> ustring" where
  "process_markdown markdown_content =
     (if markdown_content = [] then []
      else join_nl (map strip_images (split_nl markdown_content)))"

text \<open>
  \<open>has_image s\<close>: the pattern matches somewhere in \<open>s\<close> (\<open>re.search\<close> finds a match).
\<close>

fun has_image :: "ustring \<Rightarrow> bool" where
  "has_image [] \<longleftrightarrow> False"
| "has_image (c # cs) \<longleftrightarrow> match_image (c # cs) \<noteq> None \<or> has_image cs"

text \<open>
  The pattern, read as a description of texts and without reference to the matcher:
  \<open>image_syntax m\<close> holds when \<open>m\<close> is \<open>![a](b)\<close> for two texts without a line feed;
  \<open>starts_image s\<close> when some text of this shape begins \<open>s\<close>; \<open>first_image m s\<close> when \<open>m\<close>
  is the shortest text of this shape that begins \<open>s\<close>; \<open>image_free s\<close> when no text of this
  shape occurs anywhere in \<open>s\<close>.
\<close>

definition image_syntax :: "ustring \<Rightarrow> bool" where
  "image_syntax m \<longleftrightarrow>
     (\<exists>a b. m = [BANG, LBRACKET] @ a @ [RBRACKET, LPAREN] @ b @ [RPAREN] \<and>
            NL \<notin> set a \<and> NL \<notin> set b)"

definition starts_image :: "ustring \<Rightarrow> bool" where
  "starts_image s \<longleftrightarrow> (\<exists>m t. s = m @ t \<and> image_syntax m)"

definition first_image :: "ustring \<Rightarrow> ustring \<Rightarrow> bool" where
  "first_image m s \<longleftrightarrow>
     prefix m s \<and> image_syntax m \<and>
     (\<forall>m'. prefix m' s \<and> image_syntax m' \<longrightarrow> length m \<le> length m')"

definition image_free :: "ustring \<Rightarrow> bool" where
  "image_free s \<longleftrightarrow> \<not> (\<exists>p m q. s = p @ m @ q \<and> image_syntax m)"

text \<open>
  \<open>leftmost_cuts line res\<close>: \<open>res\<close> is what one pass over \<open>line\<close> from the left leaves. Either
  \<open>line\<close> is free of images and is kept whole; or \<open>line\<close> is \<open>k @ m @ rest\<close>, where no image
  begins at any position inside \<open>k\<close> (the text that follows \<open>k\<close> taken into account), \<open>m\<close> is
  the shortest image that begins right after \<open>k\<close>, \<open>k\<close> is kept, \<open>m\<close> is cut out, and the
  pass goes on with \<open>rest\<close> alone, never looking back at \<open>k\<close>.
\<close>

inductive leftmost_cuts :: "ustring \<Rightarrow> ustring \<Rightarrow> bool" where
  keep: "image_free line \<Longrightarrow> leftmost_cuts line line"
| cut: "(\<forall>p s. k = p @ s \<and> s \<noteq> [] \<longrightarrow> \<not> starts_image (s @ m @ rest)) \<Longrightarrow>
        first_image m (m @ rest) \<Longrightarrow> leftmost_cuts rest res \<Longrightarrow>
        leftmost_cuts (k @ m @ rest) (k @ res)"

section \<open>Records, values and errors\<close>

text \<open>
  A decoded JSON object is a list of key and value pairs, read with \<open>map_of\<close>. The values of
  the five fields that the program reads (\<open>number\<close>, \<open>title\<close>, \<open>body\<close>, \<open>created_at\<close>,
  \<open>updated_at\<close>) are modelled as scalars: \<open>None\<close>, a Boolean, an integer or a string.
\<close>

datatype pyval = PyNone | PyBool bool | PyInt int | PyStr ustring

type_synonym issue = "(ustring \<times> pyval) list"

datatype error = KeyError | TypeError | AttributeError | ValueError | OSError

text \<open>Truth value of a value (\<open>if not x\<close>, \<open>x or y\<close>) and its rendering in an f-string.\<close>

fun truthy :: "pyval \<Rightarrow> bool" where
  "truthy PyNone = False"
| "truthy (PyBool b) = b"
| "truthy (PyInt i) = (i \<noteq> 0)"
| "truthy (PyStr s) = (s \<noteq> [])"

fun py_str :: "pyval \<Rightarrow> ustring" where
  "py_str PyNone = ustr ''None''"
| "py_str (PyBool b) = (if b then ustr ''True'' else ustr ''False'')"
| "py_str (PyInt i) = str_int i"
| "py_str (PyStr s) = s"

text \<open>\<open>d[k]\<close> and \<open>d.get(k, default)\<close>.\<close>

definition getitem :: "issue \<Rightarrow> ustring \<Rightarrow> error + pyval" where
  "getitem d k = (case map_of d k of None \<Rightarrow> Inl KeyError | Some v \<Rightarrow> Inr v)"

definition get_or :: "issue \<Rightarrow> ustring \<Rightarrow> pyval \<Rightarrow> pyval" where
  "get_or d k dflt = (case map_of d k of None \<Rightarrow> dflt | Some v \<Rightarrow> v)"

text \<open>Sequencing of steps that may raise: the first exception ends the computation.\<close>

definition and_then :: "error + 'a \<Rightarrow> ('a \<Rightarrow> error + 'b) \<Rightarrow> error + 'b" where
  "and_then m f = (case m of Inl e \<Rightarrow> Inl e | Inr x \<Rightarrow> f x)"

section \<open>The generator object and its surroundings\<close>

text \<open>
  The constants set by \<open>__init__\<close>, and what the program takes from outside.

  An HTTP request either fails in \<open>session.get\<close> with a \<open>RequestException\<close> (connection
  error, timeout, too many redirects), or returns a response: its status code, the text of
  the \<open>HTTPError\<close> that \<open>raise_for_status\<close> builds when the status is an error status, and
  the body as decoded by \<open>json()\<close> (\<open>None\<close> when the body is no JSON). Replies are typed:
  the listing decodes to a list of objects and a detail to one object.

  Writing a file either succeeds, or fails with an error text and leaves no file or a
  partial one.
\<close>

datatype 'a http_reply =
    RequestFailed ustring
  | Response nat ustring "'a option"

datatype save_result =
    Saved
  | SaveFailed ustring "ustring option"

definition repo_owner :: ustring where
  "repo_owner = ustr ''aywlzj''"

definition repo_name :: ustring where
  "repo_name = ustr ''aywlzj.gitee.io''"

text \<open>
  \<open>clock\<close>: the reading of \<open>datetime.datetime.now()\<close>. \<open>pad_year\<close>: whether the platform
  pads \<open>%Y\<close> to four digits. \<open>fromisoformat\<close>: the library parser
  \<open>datetime.datetime.fromisoformat\<close>, whose accepted grammar depends on the interpreter
  version and which is therefore a parameter (\<open>None\<close> stands for its \<open>ValueError\<close>).
  \<open>posts_dir\<close>: the directory of the script, as printed. \<open>list_reply\<close> and
  \<open>detail_reply\<close>: what the two endpoints answer, the second by issue number.
  \<open>json_error_text\<close> and \<open>json_error_caught\<close>: the text of the exception that \<open>json()\<close>
  raises on a body that is no JSON, and whether that exception is a \<open>RequestException\<close>
  (it is one from version 2.27 of the library on, and a plain \<open>ValueError\<close> before).
  \<open>save_outcome\<close>: what becomes of writing a content under a name. \<open>exists_raises\<close>:
  whether \<open>filepath.exists()\<close> raises \<open>OSError\<close> for a name that is not in the directory
  (a name too long for the file system, for instance).
\<close>

record env =
  clock :: datetime
  pad_year :: bool
  fromisoformat :: "ustring \<Rightarrow> datetime option"
  posts_dir :: ustring
  list_reply :: "issue list http_reply"
  detail_reply :: "pyval \<Rightarrow> issue http_reply"
  json_error_text :: ustring
  json_error_caught :: bool
  save_outcome :: "ustring \<Rightarrow> ustring \<Rightarrow> save_result"
  exists_raises :: "ustring \<Rightarrow> bool"

section \<open>convert\_to\_jekyll\_post\<close>

text \<open>\<open>s.replace('Z', '+00:00')\<close>: every \<open>Z\<close> is replaced.\<close>

definition replace_Z :: "ustring \<Rightarrow> ustring" where
  "replace_Z s = concat (map (\<lambda>c. if c = 90 then ustr ''+00:00'' else [c]) s)"

text \<open>
  \<open>datetime.datetime.fromisoformat(x.replace('Z', '+00:00'))\<close>: a value that is not a
  string has no \<open>replace\<close>.
\<close>

definition parse_datetime :: "env \<Rightarrow> pyval \<Rightarrow> error + datetime" where
  "parse_datetime e v =
     (case v of
        PyStr s \<Rightarrow>
          (case fromisoformat e (replace_Z s) of None \<Rightarrow> Inl ValueError | Some d \<Rightarrow> Inr d)
      | _ \<Rightarrow> Inl AttributeError)"

text \<open>
  \<open>strftime('%Y-%m-%d')\<close> and \<open>strftime('%Y-%m-%d %H:%M:%S %z')\<close>. \<open>%z\<close> is empty for a
  naive value and otherwise the sign, hours and minutes of the offset, followed by its
  seconds when they are not zero.
\<close>

definition strftime_date :: "bool \<Rightarrow> datetime \<Rightarrow> ustring" where
  "strftime_date pad d =
     strftime_Y pad (year d) @ [HYPHEN] @ zfill 2 (month d) @ [HYPHEN] @ zfill 2 (day d)"

definition strftime_z :: "int option \<Rightarrow> ustring" where
  "strftime_z off =
     (case off of
        None \<Rightarrow> []
      | Some i \<Rightarrow>
          (let a = nat \<bar>i\<bar>
           in (if i < 0 then [HYPHEN] else ustr ''+'') @ zfill 2 (a div 3600) @
              zfill 2 (a div 60 mod 60) @ (if a mod 60 = 0 then [] else zfill 2 (a mod 60))))"

definition strftime_full :: "bool \<Rightarrow> datetime \<Rightarrow> ustring" where
  "strftime_full pad d =
     strftime_date pad d @ ustr '' '' @ zfill 2 (hour d) @ ustr '':'' @ zfill 2 (minute d) @
     ustr '':'' @ zfill 2 (second d) @ ustr '' '' @ strftime_z (utcoffset d)"

text \<open>
  The f-string of lines 95 to 110, line by line; the non-ASCII text of the template is
  given by its code points.
\<close>

definition front_matter ::
  "bool \<Rightarrow> ustring \<Rightarrow> datetime \<Rightarrow> datetime \<Rightarrow> ustring \<Rightarrow> ustring" where
  "front_matter pad title created_date updated_date number =
     ustr ''---'' @ [NL] @
     ustr ''title: '' @ [34] @ title @ [34] @ [NL] @
     ustr ''date: '' @ strftime_full pad created_date @ [NL] @
     ustr ''last_modified_at: '' @ strftime_full pad updated_date @ [NL] @
     ustr ''categories: [Gitee Issues]'' @ [NL] @
     ustr ''tags: ['' @ number @ ustr '']  # '' @ [20351, 29992] @ ustr ''issue'' @
       [32534, 21495, 20316, 20026] @ ustr ''tag'' @ [NL] @
     ustr ''comments: true'' @ [NL] @
     ustr ''---'' @ [NL] @
     [NL] @
     ustr ''## '' @ [21407, 22987, 38142, 25509] @ [NL] @
     [NL] @
     [26412, 25991, 26723, 20174] @ ustr ''Gitee Issue'' @
       [33258, 21160, 29983, 25104, 65292, 21407, 25991, 22320, 22336, 65306] @
       ustr ''[Issue #'' @ number @ ustr ''](https://gitee.com/'' @ repo_owner @ ustr ''/'' @
       repo_name @ ustr ''/issues/'' @ number @ ustr '')'' @ [NL] @
     [NL] @
     ustr ''---'' @ [NL] @
     [NL]"

text \<open>The text that stands in for an empty body (line 114).\<close>

definition placeholder :: "ustring \<Rightarrow> ustring" where
  "placeholder title =
     ustr ''**'' @ title @ ustr ''**'' @ [NL, NL] @
     ustr ''> '' @ [27492, 25991, 31456, 26469, 33258] @ ustr ''Gitee Issue'' @
     [65292, 20869, 23481, 20026, 31354, 65292, 24050, 33258, 21160, 20351, 29992, 26631,
      39064, 20316, 20026, 20869, 23481, 12290]"

text \<open>
  Lines 113 to 117: \<open>body.strip()\<close> exists for a string only; a body that is empty after
  stripping white space gives the placeholder, any other goes through \<open>process_markdown\<close>.
\<close>

definition body_content :: "ustring \<Rightarrow> pyval \<Rightarrow> error + ustring" where
  "body_content title body =
     (case body of
        PyStr b \<Rightarrow>
          Inr (if strip_chars is_space b = [] then placeholder title else process_markdown b)
      | _ \<Rightarrow> Inl AttributeError)"

text \<open>
  \<open>convert_to_jekyll_post\<close>, statement by statement. \<open>re.sub\<close> in \<open>sanitize_filename\<close>
  rejects a title that is not a string with \<open>TypeError\<close>.
\<close>

definition convert_to_jekyll_post :: "env \<Rightarrow> issue \<Rightarrow> error + (ustring \<times> ustring)" where
  "convert_to_jekyll_post e issue =
     and_then (getitem issue (ustr ''title'')) (\<lambda>title.
     let b = get_or issue (ustr ''body'') (PyStr []);
         body = (if truthy b then b else PyStr [])
     in
     and_then (getitem issue (ustr ''created_at'')) (\<lambda>created_at.
     let updated_at = get_or issue (ustr ''updated_at'') created_at;
         number = get_or issue (ustr ''number'') (PyStr [])
     in
     and_then (parse_datetime e created_at) (\<lambda>created_date.
     and_then (parse_datetime e updated_at) (\<lambda>updated_date.
     let date_str = strftime_date (pad_year e) created_date
     in
     (case title of
        PyStr t \<Rightarrow>
          (let safe_title = sanitize_filename (pad_year e) (clock e) t;
               filename = date_str @ [HYPHEN] @ safe_title @ ustr ''.md'';
               front = front_matter (pad_year e) t created_date updated_date (py_str number)
           in and_then (body_content t body) (\<lambda>content. Inr (filename, front @ content)))
      | _ \<Rightarrow> Inl TypeError)))))"

text \<open>Concrete inputs: the record of the round-trip scenario and a parser for it.\<close>

definition created42 :: datetime where
  "created42 = \<lparr>year = 2023, month = 1, day = 15, hour = 10, minute = 30, second = 0,
     utcoffset = Some 0\<rparr>"

definition updated42 :: datetime where
  "updated42 = \<lparr>year = 2023, month = 1, day = 16, hour = 8, minute = 0, second = 0,
     utcoffset = Some 0\<rparr>"

definition issue42 :: issue where
  "issue42 =
     [(ustr ''number'', PyInt 42),
      (ustr ''title'', PyStr (ustr ''Hello World'')),
      (ustr ''body'', PyStr (ustr ''some text'')),
      (ustr ''created_at'', PyStr (ustr ''2023-01-15T10:30:00Z'')),
      (ustr ''updated_at'', PyStr (ustr ''2023-01-16T08:00:00Z''))]"

text \<open>A parser that knows the two time stamps of the scenario, for concrete runs.\<close>

definition parser42 :: "ustring \<Rightarrow> datetime option" where
  "parser42 s =
     (if s = ustr ''2023-01-15T10:30:00+00:00'' then Some created42
      else if s = ustr ''2023-01-16T08:00:00+00:00'' then Some updated42
      else None)"

definition env42 :: env where
  "env42 =
     \<lparr>clock = clock0, pad_year = False, fromisoformat = parser42, posts_dir = ustr ''/site/_posts'',
      list_reply = Response 200 [] (Some [issue42]),
      detail_reply = (\<lambda>n. Response 200 [] (Some issue42)),
      json_error_text = [], json_error_caught = True,
      save_outcome = (\<lambda>name content. Saved),
      exists_raises = (\<lambda>name. False)\<rparr>"

text \<open>
  The header of the scenario, and two variants of its record: one with a body of white
  space only, one with a null body.
\<close>

definition header42 :: ustring where
  "header42 =
     front_matter True (ustr ''Hello World'') created42 updated42
       (ustr ''42'')"

definition issue_blank :: issue where
  "issue_blank =
     [(ustr ''number'', PyInt 42),
      (ustr ''title'', PyStr (ustr ''Hello World'')),
      (ustr ''body'', PyStr [32, 9, NL]),
      (ustr ''created_at'', PyStr (ustr ''2023-01-15T10:30:00Z'')),
      (ustr ''updated_at'', PyStr (ustr ''2023-01-16T08:00:00Z''))]"


section \<open>The run: directory, output and counter\<close>

text \<open>
  What a run changes: the files of the destination directory (name and content), the lines
  printed so far (one entry for each call of \<open>print\<close>), and the counter
  \<open>generated_count\<close>.
\<close>

record state =
  files :: "(ustring \<times> ustring) list"
  out :: "ustring list"
  generated_count :: nat

definition emit :: "state \<Rightarrow> ustring \<Rightarrow> state" where
  "emit st line = st\<lparr>out := out st @ [line]\<rparr>"

text \<open>The printed texts; the non-ASCII parts are given by their code points.\<close>

definition msg_fetching :: ustring where
  "msg_fetching =
     [27491, 22312, 33719, 21462] @ ustr '' '' @ repo_owner @ ustr ''/'' @ repo_name @
     ustr '' '' @ [30340, 25152, 26377] @ ustr ''issues...''"

definition msg_fetched :: "nat \<Rightarrow> ustring" where
  "msg_fetched n =
     [25104, 21151, 33719, 21462] @ ustr '' '' @ decimal n @ ustr '' '' @ [20010] @
     ustr ''issues''"

definition msg_list_failed :: "ustring \<Rightarrow> ustring" where
  "msg_list_failed err = [33719, 21462] @ ustr ''issues'' @ [22833, 36133] @ ustr '': '' @ err"

definition msg_detail_failed :: "pyval \<Rightarrow> ustring \<Rightarrow> ustring" where
  "msg_detail_failed issue_number err =
     [33719, 21462] @ ustr ''issue '' @ py_str issue_number @ ustr '' '' @
     [20869, 23481, 22833, 36133] @ ustr '': '' @ err"

definition msg_saved :: "ustring \<Rightarrow> ustring" where
  "msg_saved filename =
     [9989] @ ustr '' '' @ [25104, 21151, 29983, 25104, 25991, 31456] @ ustr '': '' @ filename"

definition msg_save_failed :: "ustring \<Rightarrow> ustring \<Rightarrow> ustring" where
  "msg_save_failed filename err =
     [10060] @ ustr '' '' @ [20445, 23384, 25991, 31456, 22833, 36133] @ ustr '' '' @
     filename @ ustr '': '' @ err"

definition msg_start :: ustring where
  "msg_start =
     [128640] @ ustr '' '' @ [24320, 22987, 20174] @ ustr ''Gitee Issues'' @ [29983, 25104] @
     ustr ''Jekyll'' @ [25991, 31456] @ ustr ''...''"

definition msg_rule :: ustring where
  "msg_rule = replicate 50 61"

definition msg_no_issues :: ustring where
  "msg_no_issues =
     [27809, 26377, 33719, 21462, 21040, 20219, 20309] @ ustr ''issues'' @
     [65292, 31243, 24207, 36864, 20986]"

definition msg_processing :: "pyval \<Rightarrow> ustring \<Rightarrow> ustring" where
  "msg_processing number title50 =
     [NL, 128221] @ ustr '' '' @ [22788, 29702] @ ustr ''Issue #'' @ py_str number @
     ustr '': '' @ title50 @ ustr ''...''"

definition msg_exists :: "ustring \<Rightarrow> ustring" where
  "msg_exists filename =
     [9888, 65039] @ ustr ''  '' @ [25991, 31456, 24050, 23384, 22312, 65292, 36339, 36807] @
     ustr '': '' @ filename"

definition msg_done :: "nat \<Rightarrow> ustring" where
  "msg_done n =
     [127881] @ ustr '' '' @ [25991, 31456, 29983, 25104, 23436, 25104, 65281, 20849, 29983, 25104] @
     ustr '' '' @ decimal n @ ustr '' '' @ [31687, 25991, 31456]"

definition msg_location :: "ustring \<Rightarrow> ustring" where
  "msg_location dir =
     [128193] @ ustr '' '' @ [25991, 31456, 20445, 23384, 20301, 32622] @ ustr '': '' @ dir"

definition msg_listing :: "nat \<Rightarrow> ustring" where
  "msg_listing n =
     [NL, 128218] @ ustr '' '' @
     [24403, 21069, 30446, 24405, 19979, 30340, 25152, 26377, 25991, 31456] @ ustr '' ('' @
     decimal n @ ustr '' '' @ [31687] @ ustr ''):''"

definition msg_entry :: "ustring \<Rightarrow> ustring" where
  "msg_entry name = ustr ''  - '' @ name"

section \<open>The fetcher\<close>

text \<open>
  The body of the two \<open>try\<close> blocks: \<open>session.get\<close>, then \<open>raise_for_status\<close>, which
  raises \<open>HTTPError\<close> (a \<open>RequestException\<close>) exactly for the status codes 400 to 599, then
  \<open>json()\<close>. The outcome is the decoded body, a \<open>RequestException\<close> with its text, or
  another exception.
\<close>

datatype 'a tried = Returned 'a | RequestException ustring | OtherException error

definition raise_for_status :: "nat \<Rightarrow> bool" where
  "raise_for_status status \<longleftrightarrow> 400 \<le> status \<and> status < 600"

definition try_get :: "env \<Rightarrow> 'a http_reply \<Rightarrow> 'a tried" where
  "try_get e reply =
     (case reply of
        RequestFailed err \<Rightarrow> RequestException err
      | Response status err body \<Rightarrow>
          if raise_for_status status then RequestException err
          else (case body of
                  Some decoded \<Rightarrow> Returned decoded
                | None \<Rightarrow>
                    if json_error_caught e then RequestException (json_error_text e)
                    else OtherException ValueError))"

definition get_all_issues :: "env \<Rightarrow> state \<Rightarrow> state \<times> (error + issue list)" where
  "get_all_issues e st =
     (let st = emit st msg_fetching
      in case try_get e (list_reply e) of
           Returned issues \<Rightarrow> (emit st (msg_fetched (length issues)), Inr issues)
         | RequestException err \<Rightarrow> (emit st (msg_list_failed err), Inr [])
         | OtherException x \<Rightarrow> (st, Inl x))"

definition get_issue_content ::
  "env \<Rightarrow> state \<Rightarrow> pyval \<Rightarrow> state \<times> (error + issue option)" where
  "get_issue_content e st issue_number =
     (case try_get e (detail_reply e issue_number) of
        Returned issue \<Rightarrow> (st, Inr (Some issue))
      | RequestException err \<Rightarrow> (emit st (msg_detail_failed issue_number err), Inr None)
      | OtherException x \<Rightarrow> (st, Inl x))"

section \<open>The writer\<close>

text \<open>
  \<open>save_article\<close> opens the file for writing without looking whether it exists; every
  exception is caught and reported as \<open>False\<close>.
\<close>

definition save_article :: "env \<Rightarrow> state \<Rightarrow> ustring \<Rightarrow> ustring \<Rightarrow> state \<times> bool" where
  "save_article e st filename content =
     (case save_outcome e filename content of
        Saved \<Rightarrow>
          (emit (st\<lparr>files := AList.update filename content (files st)\<rparr>) (msg_saved filename),
           True)
      | SaveFailed err left \<Rightarrow>
          (emit (case left of
                   None \<Rightarrow> st
                 | Some partial \<Rightarrow> st\<lparr>files := AList.update filename partial (files st)\<rparr>)
             (msg_save_failed filename err),
           False))"

section \<open>generate\_articles\<close>

text \<open>
  \<open>filepath.exists()\<close> (line 182), which stands outside every \<open>try\<close>: a name that is in
  the directory is found; for a name that is not, the call answers \<open>False\<close> or raises
  \<open>OSError\<close>.
\<close>

definition path_exists :: "env \<Rightarrow> state \<Rightarrow> ustring \<Rightarrow> error + bool" where
  "path_exists e st filename =
     (if filename \<in> fst ` set (files st) then Inr True
      else if exists_raises e filename then Inl OSError
      else Inr False)"

text \<open>\<open>x[:50]\<close>: a string is cut to its first 50 characters; no other value has a slice.\<close>

definition slice50 :: "pyval \<Rightarrow> error + ustring" where
  "slice50 v = (case v of PyStr s \<Rightarrow> Inr (take 50 s) | _ \<Rightarrow> Inl TypeError)"

text \<open>
  One pass through the body of the \<open>for\<close> loop (lines 166 to 188). The result is the new
  state and the exception that leaves the loop, if any; \<open>continue\<close> and the end of the
  body both give \<open>None\<close>.
\<close>

definition process_issue :: "env \<Rightarrow> state \<Rightarrow> issue \<Rightarrow> state \<times> error option" where
  "process_issue e st issue =
     (let number = get_or issue (ustr ''number'') PyNone
      in if \<not> truthy number then (st, None)
         else
           (case and_then (getitem issue (ustr ''title'')) slice50 of
              Inl x \<Rightarrow> (st, Some x)
            | Inr title50 \<Rightarrow>
                (let st = emit st (msg_processing number title50)
                 in case get_issue_content e st number of
                      (st, Inl x) \<Rightarrow> (st, Some x)
                    | (st, Inr None) \<Rightarrow> (st, None)
                    | (st, Inr (Some issue_detail)) \<Rightarrow>
                        if issue_detail = [] then (st, None)
                        else
                          (case convert_to_jekyll_post e issue_detail of
                             Inl x \<Rightarrow> (st, Some x)
                           | Inr (filename, content) \<Rightarrow>
                               (case path_exists e st filename of
                                  Inl x \<Rightarrow> (st, Some x)
                                | Inr True \<Rightarrow> (emit st (msg_exists filename), None)
                                | Inr False \<Rightarrow>
                                    (case save_article e st filename content of
                                       (st, True) \<Rightarrow>
                                         (st\<lparr>generated_count := generated_count st + 1\<rparr>,
                                          None)
                                     | (st, False) \<Rightarrow> (st, None)))))))"

fun process_issues :: "env \<Rightarrow> state \<Rightarrow> issue list \<Rightarrow> state \<times> error option" where
  "process_issues e st [] = (st, None)"
| "process_issues e st (issue # issues) =
     (case process_issue e st issue of
        (st, None) \<Rightarrow> process_issues e st issues
      | (st, Some x) \<Rightarrow> (st, Some x))"

text \<open>
  Lines 190 to 199: the closing rule, the count, the directory, and, when the directory
  holds a name that ends in \<open>.md\<close>, a heading and those names in sorted order.
\<close>

definition md_files :: "state \<Rightarrow> ustring list" where
  "md_files st = filter (suffix (ustr ''.md'')) (map fst (files st))"

definition summary_lines :: "env \<Rightarrow> state \<Rightarrow> ustring list" where
  "summary_lines e st =
     [NL # msg_rule, msg_done (generated_count st), msg_location (posts_dir e)] @
     (if md_files st = [] then []
      else msg_listing (length (md_files st)) # map msg_entry (sort (md_files st)))"

definition generate_articles :: "env \<Rightarrow> state \<Rightarrow> state \<times> error option" where
  "generate_articles e st =
     (let st = emit (emit st msg_start) msg_rule
      in case get_all_issues e st of
           (st, Inl x) \<Rightarrow> (st, Some x)
         | (st, Inr issues) \<Rightarrow>
             if issues = [] then (emit st msg_no_issues, None)
             else
               (case process_issues e (st\<lparr>generated_count := 0\<rparr>) issues of
                  (st, Some x) \<Rightarrow> (st, Some x)
                | (st, None) \<Rightarrow> (st\<lparr>out := out st @ summary_lines e st\<rparr>, None)))"

text \<open>
  Predicates on replies. \<open>http_failure\<close>: the request ends in a \<open>RequestException\<close> before
  \<open>json()\<close> is reached, because \<open>session.get\<close> raised or because the status code is an
  error status; \<open>failure_text\<close> is the text of that exception. \<open>error_or_non_2xx\<close>: the
  request failed or the status code is outside 200 to 299.
\<close>

definition http_failure :: "'a http_reply \<Rightarrow> bool" where
  "http_failure reply =
     (case reply of RequestFailed err \<Rightarrow> True | Response status err body \<Rightarrow> raise_for_status status)"

definition failure_text :: "'a http_reply \<Rightarrow> ustring" where
  "failure_text reply = (case reply of RequestFailed err \<Rightarrow> err | Response status err body \<Rightarrow> err)"

definition error_or_non_2xx :: "'a http_reply \<Rightarrow> bool" where
  "error_or_non_2xx reply =
     (case reply of
        RequestFailed err \<Rightarrow> True
      | Response status err body \<Rightarrow> \<not> (200 \<le> status \<and> status < 300))"

text \<open>What one pass of the loop can do to the directory and the counter.\<close>

definition untouched :: "state \<Rightarrow> state \<Rightarrow> bool" where
  "untouched st st' \<longleftrightarrow> files st' = files st \<and> generated_count st' = generated_count st"

definition wrote_new :: "state \<Rightarrow> state \<Rightarrow> bool" where
  "wrote_new st st' \<longleftrightarrow>
     (\<exists>name content. name \<notin> fst ` set (files st) \<and> files st' = files st @ [(name, content)] \<and>
        generated_count st' = generated_count st + 1)"

definition left_partial :: "env \<Rightarrow> state \<Rightarrow> state \<Rightarrow> bool" where
  "left_partial e st st' \<longleftrightarrow>
     (\<exists>name content err partial. name \<notin> fst ` set (files st) \<and>
        save_outcome e name content = SaveFailed err (Some partial) \<and>
        files st' = files st @ [(name, partial)] \<and> generated_count st' = generated_count st)"

text \<open>\<open>keeps st st'\<close>: every file of \<open>st\<close> is a file of \<open>st'\<close> with the same content.\<close>

definition keeps :: "state \<Rightarrow> state \<Rightarrow> bool" where
  "keeps st st' \<longleftrightarrow> (\<forall>name content. map_of (files st) name = Some content \<longrightarrow>
     map_of (files st') name = Some content)"


text \<open>Concrete runs: an empty directory, a directory that already holds the article.\<close>

definition state0 :: state where
  "state0 = \<lparr>files = [], out = [], generated_count = 0\<rparr>"

definition name42 :: ustring where
  "name42 = ustr ''2023-01-15-Hello-World.md''"

definition state_old :: state where
  "state_old = \<lparr>files = [(name42, ustr ''old'')], out = [], generated_count = 0\<rparr>"

definition final42 :: state where
  "final42 =
     \<lparr>files = [(name42, header42 @ ustr ''some text'')],
      out = [msg_start, msg_rule, msg_fetching, msg_fetched 1,
             msg_processing (PyInt 42) (ustr ''Hello World''), msg_saved name42,
             NL # msg_rule, msg_done 1, msg_location (ustr ''/site/_posts''),
             msg_listing 1, msg_entry name42],
      generated_count = 1\<rparr>"

definition env_down :: env where
  "env_down = env42\<lparr>list_reply := RequestFailed (ustr ''timed out''),
     detail_reply := (\<lambda>n. Response 404 (ustr ''404 Client Error'') None)\<rparr>"

definition env300 :: env where
  "env300 = env42\<lparr>list_reply := Response 300 (ustr ''Multiple Choices'') (Some [issue42])\<rparr>"

text \<open>The states in which the runs from \<open>state_old\<close> and with the listing down end.\<close>

definition final_old :: state where
  "final_old =
     \<lparr>files = [(name42, ustr ''old'')],
      out = [msg_start, msg_rule, msg_fetching, msg_fetched 1,
             msg_processing (PyInt 42) (ustr ''Hello World''), msg_exists name42,
             NL # msg_rule, msg_done 0, msg_location (ustr ''/site/_posts''),
             msg_listing 1, msg_entry name42],
      generated_count = 0\<rparr>"




section \<open>Properties of sanitize\_filename\<close>

lemma set_sub_runs: "set (sub_runs P rep s) \<subseteq> set rep \<union> {c \<in> set s. \<not> P c}"
proof (induction P rep s rule: sub_runs.induct)
  case (1 P rep)
  show ?case by simp
next
  case (2 P rep c cs)
  show ?case
  proof (cases "P c")
    case True
    have "set (dropWhile P cs) \<subseteq> set cs" by (rule set_dropWhileD [THEN subsetI])
    with 2(1) [OF True] True show ?thesis by auto
  next
    case False
    with 2(2) [OF False] show ?thesis by auto
  qed
qed

lemma set_strip_chars: "set (strip_chars P s) \<subseteq> set s"
proof -
  have "set (dropWhile P (rev (dropWhile P s))) \<subseteq> set (rev (dropWhile P s))"
    by (rule set_dropWhileD [THEN subsetI])
  moreover have "set (dropWhile P s) \<subseteq> set s"
    by (rule set_dropWhileD [THEN subsetI])
  ultimately show ?thesis by (auto simp: strip_chars_def)
qed

lemma decimal_digits: "c \<in> set (decimal n) \<Longrightarrow> is_digit c"
proof (induction n arbitrary: c rule: decimal.induct)
  case (1 n)
  show ?case
  proof (cases "n < 10")
    case True
    with 1(2) show ?thesis by (subst (asm) decimal.simps) (auto simp: is_digit_def)
  next
    case False
    from 1(2) have "c \<in> set (decimal (n div 10)) \<or> c = 48 + n mod 10"
      using False by (subst (asm) decimal.simps) auto
    then show ?thesis
    proof
      assume "c \<in> set (decimal (n div 10))"
      with 1(1) [OF False] show ?thesis by blast
    next
      assume "c = 48 + n mod 10"
      moreover have "n mod 10 < 10" by simp
      ultimately show ?thesis unfolding is_digit_def by linarith
    qed
  qed
qed

lemma decimal_lt_10: "n < 10 \<Longrightarrow> decimal n = [48 + n]"
  by (subst decimal.simps) simp

lemma decimal_ge_10: "\<not> n < 10 \<Longrightarrow> decimal n = decimal (n div 10) @ [48 + n mod 10]"
  by (subst decimal.simps) simp

lemma decimal_nonempty: "decimal n \<noteq> []"
  by (subst decimal.simps) simp

lemma zfill_digits: "c \<in> set (zfill w n) \<Longrightarrow> is_digit c"
  by (auto simp: zfill_def is_digit_def dest: decimal_digits)

lemma zfill_nonempty: "zfill w n \<noteq> []"
  by (simp add: zfill_def decimal_nonempty)

lemma clean_title_safe: "c \<in> set (clean_title title) \<Longrightarrow> \<not> unsafe_char c"
proof -
  assume c: "c \<in> set (clean_title title)"
  let ?f1 = "filter (\<lambda>c. \<not> unsafe_char c) title"
  let ?f2 = "sub_runs is_space [HYPHEN] ?f1"
  let ?f3 = "sub_runs (\<lambda>c. c = HYPHEN) [HYPHEN] ?f2"
  from c have "c \<in> set ?f3"
    using set_strip_chars by (fastforce simp: clean_title_def Let_def)
  then have "c = HYPHEN \<or> c \<in> set ?f2" using set_sub_runs by fastforce
  then have "c = HYPHEN \<or> c \<in> set ?f1" using set_sub_runs by fastforce
  then show ?thesis by (auto simp: unsafe_char_def unsafe_chars_def)
qed

lemma digit_safe: "is_digit c \<Longrightarrow> \<not> unsafe_char c"
  by (auto simp: is_digit_def unsafe_char_def unsafe_chars_def)

lemma strftime_Y_digits: "c \<in> set (strftime_Y pad y) \<Longrightarrow> is_digit c"
  by (cases pad) (auto simp: strftime_Y_def dest: zfill_digits decimal_digits)

lemma strftime_Y_nonempty: "strftime_Y pad y \<noteq> []"
  by (simp add: strftime_Y_def zfill_nonempty decimal_nonempty)

lemma strftime_Y_2023: "strftime_Y pad 2023 = ustr ''2023''"
  by (simp add: strftime_Y_def zfill_def decimal_lt_10 decimal_ge_10 ustr_def)

lemma strftime_compact_chars: "c \<in> set (strftime_compact pad d) \<Longrightarrow> is_digit c \<or> c = HYPHEN"
  by (auto simp: strftime_compact_def dest: zfill_digits strftime_Y_digits)

lemma no_dd_Cons: "no_dd (c # s) \<longleftrightarrow> \<not> (c = HYPHEN \<and> s \<noteq> [] \<and> hd s = HYPHEN) \<and> no_dd s"
  by (cases s) (auto simp: no_dd_def sublist_Cons_right)

lemma no_dd_Nil: "no_dd []"
  by (simp add: no_dd_def)

lemma sub_runs_keep: "\<forall>c \<in> set s. \<not> P c \<Longrightarrow> sub_runs P rep s = s"
  by (induction s) auto

lemma sub_runs_hd:
  "s = [] \<or> \<not> P (hd s) \<Longrightarrow> sub_runs P rep s = [] \<or> \<not> P (hd (sub_runs P rep s))"
  by (cases s) auto

lemma sub_runs_hyphen_no_dd: "no_dd (sub_runs (\<lambda>c. c = HYPHEN) [HYPHEN] s)"
proof (induction "\<lambda>c::uchar. c = HYPHEN" "[HYPHEN]" s rule: sub_runs.induct)
  case 1
  show ?case by (simp add: no_dd_Nil)
next
  case (2 c cs)
  show ?case
  proof (cases "c = HYPHEN")
    case True
    let ?d = "dropWhile (\<lambda>c. c = HYPHEN) cs"
    have "?d = [] \<or> hd ?d \<noteq> HYPHEN" using hd_dropWhile [of "\<lambda>c. c = HYPHEN" cs] by blast
    then have "sub_runs (\<lambda>c. c = HYPHEN) [HYPHEN] ?d = [] \<or>
               hd (sub_runs (\<lambda>c. c = HYPHEN) [HYPHEN] ?d) \<noteq> HYPHEN"
      using sub_runs_hd [of ?d "\<lambda>c. c = HYPHEN" "[HYPHEN]"] by blast
    with 2(1) [OF True] True show ?thesis by (auto simp: no_dd_Cons)
  next
    case False
    with 2(2) [OF False] show ?thesis by (simp add: no_dd_Cons)
  qed
qed

lemma no_dd_sub_runs_id: "no_dd s \<Longrightarrow> sub_runs (\<lambda>c. c = HYPHEN) [HYPHEN] s = s"
proof (induction s)
  case Nil
  show ?case by simp
next
  case (Cons c cs)
  from Cons.prems have nd: "no_dd cs" and h: "\<not> (c = HYPHEN \<and> cs \<noteq> [] \<and> hd cs = HYPHEN)"
    by (simp_all add: no_dd_Cons)
  show ?case
  proof (cases "c = HYPHEN")
    case True
    with h have "cs = [] \<or> hd cs \<noteq> HYPHEN" by blast
    then have "dropWhile (\<lambda>c. c = HYPHEN) cs = cs" by (simp add: dropWhile_eq_self_iff)
    with True Cons.IH [OF nd] show ?thesis by simp
  next
    case False
    with Cons.IH [OF nd] show ?thesis by simp
  qed
qed

lemma sublist_strip_chars: "sublist (strip_chars P s) s"
proof -
  have "sublist (dropWhile P (rev (dropWhile P s))) (rev (dropWhile P s))" by simp
  then have "sublist (strip_chars P s) (dropWhile P s)"
    by (simp add: strip_chars_def sublist_rev_left)
  moreover have "sublist (dropWhile P s) s" by simp
  ultimately show ?thesis by (rule sublist_order.order_trans)
qed

lemma no_dd_strip_chars: "no_dd s \<Longrightarrow> no_dd (strip_chars P s)"
  unfolding no_dd_def using sublist_strip_chars sublist_order.order_trans by blast

lemma strip_chars_ends:
  "strip_chars P s \<noteq> [] \<Longrightarrow> \<not> P (hd (strip_chars P s)) \<and> \<not> P (last (strip_chars P s))"
proof -
  assume ne: "strip_chars P s \<noteq> []"
  let ?a = "dropWhile P s"
  let ?b = "dropWhile P (rev ?a)"
  from ne have b: "?b \<noteq> []" by (simp add: strip_chars_def)
  then have "\<not> P (hd ?b)" by (rule hd_dropWhile)
  then have l: "\<not> P (last (strip_chars P s))" using b by (simp add: strip_chars_def last_rev)
  have a: "?a \<noteq> []"
  proof
    assume "?a = []"
    then have "?b = []" by (simp only: rev.simps dropWhile.simps)
    with b show False by blast
  qed
  then have pa: "\<not> P (hd ?a)" by (rule hd_dropWhile)
  have "rev ?a = takeWhile P (rev ?a) @ ?b" by simp
  then have "?a = rev ?b @ rev (takeWhile P (rev ?a))" by (metis rev_append rev_rev_ident)
  then have "hd ?a = hd (rev ?b)" using b by (metis hd_append2 rev_is_Nil_conv)
  with pa have "\<not> P (hd (strip_chars P s))" by (simp add: strip_chars_def)
  with l show ?thesis by blast
qed

lemma strip_chars_id: "s = [] \<or> (\<not> P (hd s) \<and> \<not> P (last s)) \<Longrightarrow> strip_chars P s = s"
proof (cases "s = []")
  case True
  then show ?thesis by (simp add: strip_chars_def)
next
  case False
  assume "s = [] \<or> (\<not> P (hd s) \<and> \<not> P (last s))"
  with False have h: "\<not> P (hd s)" and l: "\<not> P (last s)" by blast+
  from h False have 1: "dropWhile P s = s" by (simp add: dropWhile_eq_self_iff)
  from l False have "\<not> P (hd (rev s))" by (simp add: hd_rev)
  then have "dropWhile P (rev s) = rev s" by (simp add: dropWhile_eq_self_iff)
  with 1 show ?thesis by (simp add: strip_chars_def)
qed

lemma tidy_fixed: "tidy s \<Longrightarrow> clean_title s = s"
proof -
  assume t: "tidy s"
  then have 1: "filter (\<lambda>c. \<not> unsafe_char c) s = s" by (auto simp: tidy_def filter_id_conv)
  from t have 2: "sub_runs is_space [HYPHEN] s = s" by (intro sub_runs_keep) (simp add: tidy_def)
  from t have 3: "sub_runs (\<lambda>c. c = HYPHEN) [HYPHEN] s = s"
    by (intro no_dd_sub_runs_id) (simp add: tidy_def)
  from t have 4: "strip_chars (\<lambda>c. c = HYPHEN) s = s"
    by (intro strip_chars_id) (auto simp: tidy_def)
  show ?thesis by (simp add: clean_title_def 1 2 3 4)
qed

lemma hyphen_not_space: "\<not> is_space HYPHEN"
  by (simp add: is_space_def)

lemma clean_title_nospace: "c \<in> set (clean_title title) \<Longrightarrow> \<not> is_space c"
proof -
  assume c: "c \<in> set (clean_title title)"
  let ?f1 = "filter (\<lambda>c. \<not> unsafe_char c) title"
  let ?f2 = "sub_runs is_space [HYPHEN] ?f1"
  let ?f3 = "sub_runs (\<lambda>c. c = HYPHEN) [HYPHEN] ?f2"
  from c have "c \<in> set ?f3"
    using set_strip_chars by (fastforce simp: clean_title_def Let_def)
  then have "c = HYPHEN \<or> c \<in> set ?f2" using set_sub_runs by fastforce
  then have "c = HYPHEN \<or> \<not> is_space c" using set_sub_runs by fastforce
  then show ?thesis using hyphen_not_space by blast
qed

lemma clean_title_no_dd: "no_dd (clean_title title)"
  unfolding clean_title_def Let_def by (intro no_dd_strip_chars sub_runs_hyphen_no_dd)

lemma clean_title_ends:
  "clean_title title \<noteq> [] \<Longrightarrow>
   hd (clean_title title) \<noteq> HYPHEN \<and> last (clean_title title) \<noteq> HYPHEN"
  unfolding clean_title_def Let_def by (rule strip_chars_ends)

lemma clean_title_tidy: "tidy (clean_title title)"
  unfolding tidy_def
  using clean_title_safe clean_title_nospace clean_title_no_dd clean_title_ends by blast

lemma length_decimal_lt_10: "n < 10 \<Longrightarrow> length (decimal n) = 1"
  by (subst decimal.simps) simp

lemma length_decimal_lt_100: "n < 100 \<Longrightarrow> length (decimal n) \<le> 2"
  by (subst decimal.simps) (simp add: length_decimal_lt_10)

lemma length_decimal_lt_1000: "n < 1000 \<Longrightarrow> length (decimal n) \<le> 3"
proof (subst decimal.simps)
  assume "n < 1000"
  then have "n div 10 < 100" by simp
  then have "length (decimal (n div 10)) \<le> 2" by (rule length_decimal_lt_100)
  then show "length (if n < 10 then [48 + n] else decimal (n div 10) @ [48 + n mod 10]) \<le> 3"
    by simp
qed

lemma length_decimal_lt_10000: "n < 10000 \<Longrightarrow> length (decimal n) \<le> 4"
proof (subst decimal.simps)
  assume "n < 10000"
  then have "n div 10 < 1000" by simp
  then have "length (decimal (n div 10)) \<le> 3" by (rule length_decimal_lt_1000)
  then show "length (if n < 10 then [48 + n] else decimal (n div 10) @ [48 + n mod 10]) \<le> 4"
    by simp
qed

lemma length_zfill: "length (decimal n) \<le> w \<Longrightarrow> length (zfill w n) = w"
  by (simp add: zfill_def)

lemma length_zfill_2: "n < 100 \<Longrightarrow> length (zfill 2 n) = 2"
  by (rule length_zfill) (rule length_decimal_lt_100)

lemma length_zfill_4: "n < 10000 \<Longrightarrow> length (zfill 4 n) = 4"
  by (rule length_zfill) (rule length_decimal_lt_10000)

lemma list_all_zfill: "list_all is_digit (zfill w n)"
  by (simp add: list_all_iff zfill_digits)

lemma length_decimal_Suc: "10 \<le> n \<Longrightarrow> length (decimal n) = Suc (length (decimal (n div 10)))"
  by (subst decimal.simps) simp

lemma length_decimal_four:
  assumes "1000 \<le> n" and "n \<le> 9999"
  shows "length (decimal n) = 4"
proof -
  from assms have a: "10 \<le> n" and b: "10 \<le> n div 10" and c: "10 \<le> n div 10 div 10"
    and d: "n div 10 div 10 div 10 < 10" by simp_all
  from d have "length (decimal (n div 10 div 10 div 10)) = 1" by (rule length_decimal_lt_10)
  with a b c show ?thesis by (simp add: length_decimal_Suc)
qed

lemma strftime_Y_four:
  "1000 \<le> n \<Longrightarrow> n \<le> 9999 \<Longrightarrow> strftime_Y pad n = decimal n \<and> length (decimal n) = 4"
  by (simp add: strftime_Y_def zfill_def length_decimal_four)

lemma list_all_decimal: "list_all is_digit (decimal n)"
  by (simp add: list_all_iff decimal_digits)

lemma strftime_compact_shape:
  assumes "valid_datetime d"
  shows "\<exists>a b. strftime_compact pad d = a @ [HYPHEN] @ b \<and> length a = 8 \<and> length b = 6 \<and>
           list_all is_digit a \<and> list_all is_digit b"
proof -
  let ?a = "decimal (year d) @ zfill 2 (month d) @ zfill 2 (day d)"
  let ?b = "zfill 2 (hour d) @ zfill 2 (minute d) @ zfill 2 (second d)"
  from assms have y: "strftime_Y pad (year d) = decimal (year d)" "length (decimal (year d)) = 4"
    by (simp_all add: valid_datetime_def strftime_Y_four)
  from assms y(2) have "length ?a = 8" "length ?b = 6"
    by (simp_all add: valid_datetime_def length_zfill_2)
  moreover have "list_all is_digit ?a" "list_all is_digit ?b"
    by (simp_all add: list_all_zfill list_all_decimal)
  moreover have "strftime_compact pad d = ?a @ [HYPHEN] @ ?b"
    by (simp add: strftime_compact_def y(1))
  ultimately show ?thesis by blast
qed

lemma fallback_matches:
  assumes "valid_datetime d"
  shows "matches_article_8_6 (ustr ''article-'' @ strftime_compact pad d)"
proof -
  from strftime_compact_shape [OF assms] obtain a b where
    s: "strftime_compact pad d = a @ [HYPHEN] @ b" and la: "length a = 8" and lb: "length b = 6"
    and da: "list_all is_digit a" and db: "list_all is_digit b" by blast
  have l8: "length (ustr ''article-'') = 8" by (simp add: ustr_def)
  have "(ustr ''article-'' @ a @ [HYPHEN] @ b) ! 16 = (a @ [HYPHEN] @ b) ! 8"
    using l8 by (simp add: nth_append)
  also have "\<dots> = HYPHEN" using la by (simp add: nth_append)
  finally have h: "(ustr ''article-'' @ a @ [HYPHEN] @ b) ! 16 = HYPHEN" .
  have d17: "drop 17 (ustr ''article-'' @ a @ [HYPHEN] @ b) = b" using l8 la by simp
  have t8: "take 8 (drop 8 (ustr ''article-'' @ a @ [HYPHEN] @ b)) = a" using l8 la by simp
  show ?thesis unfolding matches_article_8_6_def s
    using l8 la lb da db h d17 t8 by simp
qed

lemma no_dd_append_nohyphen: "\<forall>c \<in> set xs. c \<noteq> HYPHEN \<Longrightarrow> no_dd (xs @ ys) \<longleftrightarrow> no_dd ys"
  by (induction xs) (auto simp: no_dd_Cons)

lemma digit_not_hyphen: "is_digit c \<Longrightarrow> c \<noteq> HYPHEN"
  by (auto simp: is_digit_def)

lemma digit_not_space: "is_digit c \<Longrightarrow> \<not> is_space c"
  by (auto simp: is_digit_def is_space_def)

lemma hyphen_safe: "\<not> unsafe_char HYPHEN"
  by (simp add: unsafe_char_def unsafe_chars_def)

lemma digits_framed_tidy:
  assumes da: "\<forall>c \<in> set a. is_digit c" and db: "\<forall>c \<in> set b. is_digit c"
    and ane: "a \<noteq> []" and bne: "b \<noteq> []"
  shows "tidy (ustr ''article'' @ HYPHEN # a @ HYPHEN # b)"
proof -
  let ?f = "ustr ''article'' @ HYPHEN # a @ HYPHEN # b"
  have lit: "\<forall>c \<in> set (ustr ''article''). c \<noteq> HYPHEN \<and> \<not> unsafe_char c \<and> \<not> is_space c"
    by (simp add: ustr_def unsafe_char_def unsafe_chars_def is_space_def)
  have chars: "\<forall>c \<in> set ?f. \<not> unsafe_char c \<and> \<not> is_space c"
  proof
    fix c assume "c \<in> set ?f"
    then have "c \<in> set (ustr ''article'') \<or> c = HYPHEN \<or> c \<in> set a \<or> c \<in> set b"
      by auto
    then have "c \<in> set (ustr ''article'') \<or> c = HYPHEN \<or> is_digit c" using da db by blast
    then show "\<not> unsafe_char c \<and> \<not> is_space c"
      using lit digit_safe digit_not_space hyphen_not_space hyphen_safe by blast
  qed
  from bne db have hb: "hd b \<noteq> HYPHEN" using digit_not_hyphen hd_in_set by blast
  from ane da have "hd a \<noteq> HYPHEN" using digit_not_hyphen hd_in_set by blast
  with ane have ha: "hd (a @ HYPHEN # b) \<noteq> HYPHEN" by simp
  have "no_dd (b @ [])" using db digit_not_hyphen
    by (subst no_dd_append_nohyphen) (auto simp: no_dd_Nil)
  then have "no_dd (HYPHEN # b)" using hb by (simp add: no_dd_Cons)
  then have "no_dd (a @ HYPHEN # b)" using da digit_not_hyphen
    by (subst no_dd_append_nohyphen) auto
  then have "no_dd (HYPHEN # a @ HYPHEN # b)" using ha by (simp add: no_dd_Cons)
  then have nd: "no_dd ?f" using lit
    by (subst no_dd_append_nohyphen) auto
  have h: "hd ?f \<noteq> HYPHEN" by (simp add: ustr_def)
  have "last ?f = last b" using bne by simp
  moreover from bne db have "last b \<noteq> HYPHEN" using digit_not_hyphen last_in_set by blast
  ultimately have l: "last ?f \<noteq> HYPHEN" by simp
  show ?thesis unfolding tidy_def using chars nd h l by blast
qed

lemma fallback_tidy: "tidy (ustr ''article-'' @ strftime_compact pad d)"
proof -
  let ?a = "strftime_Y pad (year d) @ zfill 2 (month d) @ zfill 2 (day d)"
  let ?b = "zfill 2 (hour d) @ zfill 2 (minute d) @ zfill 2 (second d)"
  have f: "ustr ''article-'' @ strftime_compact pad d = ustr ''article'' @ HYPHEN # ?a @ HYPHEN # ?b"
    by (simp add: strftime_compact_def ustr_def)
  have da: "\<forall>c \<in> set ?a. is_digit c" and db: "\<forall>c \<in> set ?b. is_digit c"
    by (auto dest: zfill_digits strftime_Y_digits)
  have ane: "?a \<noteq> []" and bne: "?b \<noteq> []" by (simp_all add: zfill_nonempty)
  show ?thesis unfolding f by (rule digits_framed_tidy [OF da db ane bne])
qed

text \<open>
  Claim C3. Whatever the title, none of the characters \<open>< > : " / \ | ? *\<close> occurs in the
  result of \<open>sanitize_filename\<close>; this covers the fallback name as well.
\<close>

theorem sanitize_filename_safe:
  "c \<in> set unsafe_chars \<Longrightarrow> c \<notin> set (sanitize_filename pad now title)"
proof
  assume u: "c \<in> set unsafe_chars" and c: "c \<in> set (sanitize_filename pad now title)"
  show False
  proof (cases "clean_title title = []")
    case True
    with c have "c \<in> set (ustr ''article-'') \<or> c \<in> set (strftime_compact pad now)"
      by (simp add: sanitize_filename_def)
    then show False
    proof
      assume "c \<in> set (ustr ''article-'')"
      with u show False by (auto simp: ustr_def unsafe_chars_def)
    next
      assume "c \<in> set (strftime_compact pad now)"
      then have "is_digit c \<or> c = HYPHEN" by (rule strftime_compact_chars)
      with u show False by (auto simp: is_digit_def unsafe_chars_def)
    qed
  next
    case False
    with c have "c \<in> set (clean_title title)" by (simp add: sanitize_filename_def)
    then have "\<not> unsafe_char c" by (rule clean_title_safe)
    with u show False by (simp add: unsafe_char_def)
  qed
qed

theorem sanitize_filename_safe_witness:
  "60 \<in> set unsafe_chars \<and> 60 \<notin> set (sanitize_filename False clock0 (ustr ''a<b: c?''))"
proof -
  have h: "60 \<in> set unsafe_chars" by (simp add: unsafe_chars_def)
  from h sanitize_filename_safe [OF h, of False clock0 "ustr ''a<b: c?''"] show ?thesis by blast
qed

text \<open>
  Claim C4. \<open>sanitize_filename\<close> is idempotent: applied to its own result it returns that
  result, whatever the clock shows at either call.
\<close>

theorem sanitize_filename_idempotent:
  "sanitize_filename pad2 now2 (sanitize_filename pad1 now1 title) = sanitize_filename pad1 now1 title"
proof -
  have t: "tidy (sanitize_filename pad1 now1 title)"
    by (simp add: sanitize_filename_def Let_def clean_title_tidy fallback_tidy)
  have ne: "sanitize_filename pad1 now1 title \<noteq> []"
    by (simp add: sanitize_filename_def Let_def ustr_def)
  from t have "clean_title (sanitize_filename pad1 now1 title) = sanitize_filename pad1 now1 title"
    by (rule tidy_fixed)
  with ne show ?thesis by (simp add: sanitize_filename_def [of pad2 now2] Let_def)
qed

text \<open>
  Claim C5, as stated, asks for \<open>article-\<close> followed by fourteen digits. The format string
  of the fallback is \<open>%Y%m%d-%H%M%S\<close>, so the name has a hyphen between the date and the
  time of day: at 2023-01-15 10:30:00 the empty title gives \<open>article-20230115-103000\<close>.
\<close>

theorem sanitize_filename_fallback_not_14_digits:
  "clean_title [] = [] \<and>
   sanitize_filename False clock0 [] = ustr ''article-20230115-103000'' \<and>
   \<not> matches_article_14 (sanitize_filename False clock0 [])"
proof -
  have c: "clean_title [] = []"
    by (simp add: clean_title_def strip_chars_def)
  have v: "sanitize_filename False clock0 [] = ustr ''article-20230115-103000''"
    by (simp add: sanitize_filename_def c clock0_def strftime_compact_def strftime_Y_def
        zfill_def decimal_lt_10 decimal_ge_10 ustr_def)
  have n: "\<not> matches_article_14 (ustr ''article-20230115-103000'')"
    by (simp add: matches_article_14_def ustr_def)
  from c v n show ?thesis by simp
qed

text \<open>
  Claim C5, amended. For every title that the rewriting statements leave empty, and a clock
  reading with a four-digit year, \<open>sanitize_filename\<close> returns a non-empty name of the form
  \<open>article-\<close>, eight digits, a hyphen, six digits.
\<close>

theorem sanitize_filename_fallback:
  assumes "clean_title title = []" and "valid_datetime now"
  shows "sanitize_filename pad now title \<noteq> [] \<and> matches_article_8_6 (sanitize_filename pad now title)"
  using assms fallback_matches [of now pad] by (simp add: sanitize_filename_def ustr_def)

theorem sanitize_filename_fallback_witness:
  "clean_title (ustr ''<>  '') = [] \<and> valid_datetime clock0 \<and>
   sanitize_filename False clock0 (ustr ''<>  '') \<noteq> [] \<and>
   matches_article_8_6 (sanitize_filename False clock0 (ustr ''<>  ''))"
proof -
  have h1: "clean_title (ustr ''<>  '') = []"
    by (simp add: clean_title_def ustr_def unsafe_char_def unsafe_chars_def is_space_def
        strip_chars_def)
  have h2: "valid_datetime clock0" by (simp add: valid_datetime_def clock0_def)
  from h1 h2 sanitize_filename_fallback [OF h1 h2, where pad = False] show ?thesis by blast
qed

section \<open>Properties of process\_markdown\<close>

lemma split_nl_nonempty: "split_nl s \<noteq> []"
  by (induction s) (auto split: list.splits)

lemma split_nl_no_nl: "l \<in> set (split_nl s) \<Longrightarrow> NL \<notin> set l"
proof (induction s arbitrary: l)
  case Nil
  then show ?case by simp
next
  case (Cons c cs)
  show ?case
  proof (cases "c = NL")
    case True
    with Cons show ?thesis by auto
  next
    case False
    obtain l' ls where r: "split_nl cs = l' # ls"
      using split_nl_nonempty [of cs] by (cases "split_nl cs") auto
    with False Cons.prems have "l = c # l' \<or> l \<in> set ls" by simp
    moreover from r Cons.IH have "NL \<notin> set l'" and "\<forall>x \<in> set ls. NL \<notin> set x" by simp_all
    ultimately show ?thesis using False by auto
  qed
qed

lemma split_nl_line: "NL \<notin> set l \<Longrightarrow> split_nl l = [l]"
  by (induction l) auto

lemma split_nl_append: "NL \<notin> set l \<Longrightarrow> split_nl (l @ NL # rest) = l # split_nl rest"
  by (induction l) auto

lemma split_join: "ls \<noteq> [] \<Longrightarrow> \<forall>l \<in> set ls. NL \<notin> set l \<Longrightarrow> split_nl (join_nl ls) = ls"
proof (induction ls rule: join_nl.induct)
  case 1
  then show ?case by simp
next
  case (2 l)
  then show ?case by (simp add: split_nl_line)
next
  case (3 l v va)
  then show ?case by (simp add: split_nl_append)
qed

lemma find_close_decomp: "find_close s = Some r \<Longrightarrow> \<exists>m. s = m @ r \<and> find_close m = Some []"
proof (induction s)
  case Nil
  then show ?case by simp
next
  case (Cons c cs)
  show ?case
  proof (cases "c = RPAREN")
    case True
    with Cons.prems have "c # cs = [c] @ r \<and> find_close [c] = Some []" by simp
    then show ?thesis by blast
  next
    case False
    with Cons.prems have n: "c \<noteq> NL" and "find_close cs = Some r" by (auto split: if_splits)
    with Cons.IH obtain m where "cs = m @ r" "find_close m = Some []" by blast
    with False n have "c # cs = (c # m) @ r \<and> find_close (c # m) = Some []" by simp
    then show ?thesis by blast
  qed
qed

lemma find_close_extend: "find_close s = Some r \<Longrightarrow> find_close (s @ t) = Some (r @ t)"
  by (induction s) (auto split: if_splits)

lemma try_here_extend: "try_here c cs = Some r \<Longrightarrow> try_here c (cs @ t) = Some (r @ t)"
  by (auto simp: try_here_def find_close_extend split: if_splits list.splits)

lemma try_here_decomp:
  "try_here c cs = Some r \<Longrightarrow> \<exists>m. cs = m @ r \<and> try_here c m = Some []"
proof -
  assume a: "try_here c cs = Some r"
  then obtain ds where c: "c = RBRACKET" and cs: "cs = LPAREN # ds" and f: "find_close ds = Some r"
    by (auto simp: try_here_def split: if_splits list.splits)
  from find_close_decomp [OF f] obtain m where "ds = m @ r" "find_close m = Some []" by blast
  with c cs have "cs = (LPAREN # m) @ r \<and> try_here c (LPAREN # m) = Some []"
    by (simp add: try_here_def)
  then show ?thesis by blast
qed

lemma find_mid_extend: "find_mid s \<noteq> None \<Longrightarrow> find_mid (s @ t) \<noteq> None"
proof (induction s)
  case Nil
  then show ?case by simp
next
  case (Cons c cs)
  show ?case
  proof (cases "try_here c cs")
    case (Some r)
    then have "try_here c (cs @ t) = Some (r @ t)" by (rule try_here_extend)
    then show ?thesis by (simp only: append_Cons find_mid.simps) simp
  next
    case None
    with Cons.prems have n: "c \<noteq> NL" and "find_mid cs \<noteq> None"
      by (auto simp only: find_mid.simps split: if_splits option.splits)
    with Cons.IH have "find_mid (cs @ t) \<noteq> None" by blast
    with n show ?thesis
      by (simp only: append_Cons find_mid.simps) (simp split: option.splits)
  qed
qed

lemma find_mid_decomp: "find_mid s = Some r \<Longrightarrow> \<exists>m. s = m @ r \<and> find_mid m = Some []"
proof (induction s)
  case Nil
  then show ?case by simp
next
  case (Cons c cs)
  show ?case
  proof (cases "try_here c cs")
    case (Some r')
    with Cons.prems have "r' = r" by (simp only: find_mid.simps) simp
    with Some obtain m where "cs = m @ r" "try_here c m = Some []"
      using try_here_decomp by blast
    then have "c # cs = (c # m) @ r \<and> find_mid (c # m) = Some []"
      by (simp only: find_mid.simps) simp
    then show ?thesis by blast
  next
    case None
    with Cons.prems have n: "c \<noteq> NL" and "find_mid cs = Some r"
      by (auto simp only: find_mid.simps split: if_splits option.splits)
    with Cons.IH obtain m where m: "cs = m @ r" "find_mid m = Some []" by blast
    have "try_here c m = None"
    proof (cases "try_here c m")
      case (Some x)
      then have "try_here c (m @ r) = Some (x @ r)" by (rule try_here_extend)
      with None m show ?thesis by simp
    qed simp
    with n m have "c # cs = (c # m) @ r \<and> find_mid (c # m) = Some []"
      by (simp only: find_mid.simps) simp
    then show ?thesis by blast
  qed
qed

lemma match_image_Some:
  "match_image s = Some r \<Longrightarrow> \<exists>cs. s = BANG # LBRACKET # cs \<and> find_mid cs = Some r"
  by (cases s rule: match_image.cases) (auto split: if_splits)

lemma match_image_decomp:
  "match_image s = Some r \<Longrightarrow> \<exists>m. s = m @ r \<and> match_image m = Some []"
proof -
  assume "match_image s = Some r"
  then obtain cs where s: "s = BANG # LBRACKET # cs" and f: "find_mid cs = Some r"
    using match_image_Some by blast
  from find_mid_decomp [OF f] obtain m where "cs = m @ r" "find_mid m = Some []" by blast
  with s have "s = (BANG # LBRACKET # m) @ r \<and> match_image (BANG # LBRACKET # m) = Some []"
    by simp
  then show ?thesis by blast
qed

lemma match_image_extend: "match_image s \<noteq> None \<Longrightarrow> match_image (s @ t) \<noteq> None"
proof -
  assume "match_image s \<noteq> None"
  then obtain r where "match_image s = Some r" by blast
  then obtain cs where s: "s = BANG # LBRACKET # cs" and f: "find_mid cs = Some r"
    using match_image_Some by blast
  from f have "find_mid (cs @ t) \<noteq> None" using find_mid_extend by simp
  with s show ?thesis by simp
qed

lemma no_image_keeps: "\<not> has_image line \<Longrightarrow> strip_images line = line"
  by (induction line) auto

lemma set_strip_images: "set (strip_images s) \<subseteq> set s"
proof (induction s rule: strip_images.induct)
  case 1
  show ?case by simp
next
  case (2 c cs)
  show ?case
  proof (cases "match_image (c # cs)")
    case None
    with 2(1) show ?thesis by auto
  next
    case (Some rest)
    from match_image_decomp [OF Some] obtain m where "c # cs = m @ rest" by blast
    then have "set rest \<subseteq> set (c # cs)" by (metis set_append sup_ge2)
    with 2(2) [OF Some] Some show ?thesis by auto
  qed
qed

lemma split_process_markdown:
  "split_nl (process_markdown text) = map strip_images (split_nl text)"
proof (cases "text = []")
  case True
  then show ?thesis by (simp add: process_markdown_def)
next
  case False
  have "\<forall>l \<in> set (map strip_images (split_nl text)). NL \<notin> set l"
    using split_nl_no_nl set_strip_images by fastforce
  moreover have "map strip_images (split_nl text) \<noteq> []" by (simp add: split_nl_nonempty)
  ultimately have "split_nl (join_nl (map strip_images (split_nl text))) =
      map strip_images (split_nl text)" by (intro split_join)
  with False show ?thesis by (simp add: process_markdown_def)
qed

lemma find_close_Nil_shape:
  "find_close s = Some [] \<Longrightarrow> \<exists>b. s = b @ [RPAREN] \<and> NL \<notin> set b"
proof (induction s)
  case Nil
  then show ?case by simp
next
  case (Cons c cs)
  show ?case
  proof (cases "c = RPAREN")
    case True
    with Cons.prems have "c # cs = [] @ [RPAREN] \<and> NL \<notin> set ([]::ustring)" by simp
    then show ?thesis by blast
  next
    case False
    with Cons.prems have n: "c \<noteq> NL" and "find_close cs = Some []" by (auto split: if_splits)
    with Cons.IH obtain b where "cs = b @ [RPAREN]" "NL \<notin> set b" by blast
    with n have "c # cs = (c # b) @ [RPAREN] \<and> NL \<notin> set (c # b)" by simp
    then show ?thesis by blast
  qed
qed

lemma find_mid_Nil_shape:
  "find_mid s = Some [] \<Longrightarrow>
   \<exists>a b. s = a @ [RBRACKET, LPAREN] @ b @ [RPAREN] \<and> NL \<notin> set a \<and> NL \<notin> set b"
proof (induction s)
  case Nil
  then show ?case by simp
next
  case (Cons c cs)
  show ?case
  proof (cases "try_here c cs")
    case (Some r)
    with Cons.prems have "r = []" by (simp only: find_mid.simps) simp
    with Some obtain ds where c: "c = RBRACKET" and cs: "cs = LPAREN # ds"
      and f: "find_close ds = Some []"
      by (auto simp: try_here_def split: if_splits list.splits)
    from find_close_Nil_shape [OF f] obtain b where "ds = b @ [RPAREN]" "NL \<notin> set b" by blast
    with c cs have "c # cs = [] @ [RBRACKET, LPAREN] @ b @ [RPAREN] \<and> NL \<notin> set ([]::ustring) \<and>
        NL \<notin> set b" by simp
    then show ?thesis by blast
  next
    case None
    with Cons.prems have n: "c \<noteq> NL" and "find_mid cs = Some []"
      by (auto simp only: find_mid.simps split: if_splits option.splits)
    with Cons.IH obtain a b where "cs = a @ [RBRACKET, LPAREN] @ b @ [RPAREN]"
      "NL \<notin> set a" "NL \<notin> set b" by blast
    with n have "c # cs = (c # a) @ [RBRACKET, LPAREN] @ b @ [RPAREN] \<and> NL \<notin> set (c # a) \<and>
        NL \<notin> set b" by simp
    then show ?thesis by blast
  qed
qed

lemma match_image_Nil_syntax: "match_image m = Some [] \<Longrightarrow> image_syntax m"
proof -
  assume "match_image m = Some []"
  then obtain cs where m: "m = BANG # LBRACKET # cs" and f: "find_mid cs = Some []"
    using match_image_Some by blast
  from find_mid_Nil_shape [OF f] obtain a b where
    "cs = a @ [RBRACKET, LPAREN] @ b @ [RPAREN]" "NL \<notin> set a" "NL \<notin> set b" by blast
  with m show ?thesis unfolding image_syntax_def by auto
qed

lemma find_close_finds: "NL \<notin> set b \<Longrightarrow> find_close (b @ RPAREN # q) \<noteq> None"
  by (induction b) auto

lemma find_mid_finds:
  "NL \<notin> set a \<Longrightarrow> NL \<notin> set b \<Longrightarrow> find_mid (a @ RBRACKET # LPAREN # b @ RPAREN # q) \<noteq> None"
proof (induction a)
  case Nil
  then have "try_here RBRACKET (LPAREN # b @ RPAREN # q) \<noteq> None"
    using find_close_finds [of b q] by (simp add: try_here_def)
  then show ?case by (simp only: append_Nil find_mid.simps) (auto split: option.splits)
next
  case (Cons c a)
  then have n: "c \<noteq> NL" and "find_mid (a @ RBRACKET # LPAREN # b @ RPAREN # q) \<noteq> None" by auto
  then show ?case by (simp only: append_Cons find_mid.simps) (auto split: option.splits)
qed

lemma image_syntax_matches: "image_syntax m \<Longrightarrow> match_image (m @ q) \<noteq> None"
proof -
  assume "image_syntax m"
  then obtain a b where m: "m = [BANG, LBRACKET] @ a @ [RBRACKET, LPAREN] @ b @ [RPAREN]"
    and n: "NL \<notin> set a" "NL \<notin> set b" unfolding image_syntax_def by blast
  from m have "m @ q = BANG # LBRACKET # (a @ RBRACKET # LPAREN # b @ RPAREN # q)" by simp
  with find_mid_finds [OF n, of q] show ?thesis by simp
qed

lemma has_image_append: "has_image s \<Longrightarrow> has_image (p @ s)"
  by (induction p) auto

lemma has_image_suffix: "has_image s \<Longrightarrow> \<exists>p t. s = p @ t \<and> match_image t \<noteq> None"
proof (induction s)
  case Nil
  then show ?case by simp
next
  case (Cons c cs)
  show ?case
  proof (cases "match_image (c # cs) = None")
    case False
    then have "c # cs = [] @ (c # cs) \<and> match_image (c # cs) \<noteq> None" by simp
    then show ?thesis by blast
  next
    case True
    with Cons.prems have "has_image cs" by simp
    with Cons.IH obtain p t where "cs = p @ t" "match_image t \<noteq> None" by blast
    then have "c # cs = (c # p) @ t \<and> match_image t \<noteq> None" by simp
    then show ?thesis by blast
  qed
qed

lemma has_image_iff:
  "has_image s \<longleftrightarrow> (\<exists>p m q. s = p @ m @ q \<and> image_syntax m)"
proof
  assume "has_image s"
  then obtain p t r where s: "s = p @ t" and "match_image t = Some r"
    using has_image_suffix by blast
  then obtain m where "t = m @ r" "match_image m = Some []" using match_image_decomp by blast
  with s have "s = p @ m @ r \<and> image_syntax m" by (simp add: match_image_Nil_syntax)
  then show "\<exists>p m q. s = p @ m @ q \<and> image_syntax m" by blast
next
  assume "\<exists>p m q. s = p @ m @ q \<and> image_syntax m"
  then obtain p m q where s: "s = p @ m @ q" and "image_syntax m" by blast
  then have mq: "match_image (m @ q) \<noteq> None" by (simp add: image_syntax_matches)
  then have "m @ q \<noteq> []" by auto
  then obtain c cs where c: "m @ q = c # cs" by (cases "m @ q") auto
  with mq have "has_image (m @ q)" by simp
  with s show "has_image s" by (simp add: has_image_append)
qed

lemma starts_image_iff: "starts_image s \<longleftrightarrow> match_image s \<noteq> None"
proof
  assume "starts_image s"
  then obtain m t where "s = m @ t" "image_syntax m" unfolding starts_image_def by blast
  then show "match_image s \<noteq> None" by (simp add: image_syntax_matches)
next
  assume "match_image s \<noteq> None"
  then obtain r where "match_image s = Some r" by blast
  then obtain m where "s = m @ r" "match_image m = Some []" using match_image_decomp by blast
  then have "s = m @ r \<and> image_syntax m" by (simp add: match_image_Nil_syntax)
  then show "starts_image s" unfolding starts_image_def by blast
qed

lemma image_free_iff: "image_free s \<longleftrightarrow> \<not> has_image s"
  by (simp add: image_free_def has_image_iff)

lemma find_close_paren: "find_close s = Some r \<Longrightarrow> RPAREN \<in> set s"
  by (induction s) (auto split: if_splits)

lemma try_here_paren: "try_here c cs = Some r \<Longrightarrow> RPAREN \<in> set cs"
  by (auto simp: try_here_def split: if_splits list.splits dest: find_close_paren)

lemma find_mid_paren: "find_mid s = Some r \<Longrightarrow> RPAREN \<in> set s"
proof (induction s)
  case Nil
  then show ?case by simp
next
  case (Cons c cs)
  show ?case
  proof (cases "try_here c cs")
    case (Some r')
    then show ?thesis using try_here_paren by fastforce
  next
    case None
    with Cons.prems have "find_mid cs = Some r" by (simp split: if_splits)
    with Cons.IH show ?thesis by simp
  qed
qed

lemma find_close_late:
  "find_close s = None \<Longrightarrow> find_close (s @ t) = Some r \<Longrightarrow> RPAREN \<notin> set s"
  by (induction s) (auto split: if_splits)

lemma try_here_late:
  "try_here c cs = None \<Longrightarrow> try_here c (cs @ t) = Some r \<Longrightarrow> RPAREN \<notin> set cs"
proof (cases cs)
  case Nil
  then show "RPAREN \<notin> set cs" by simp
next
  case (Cons d ds)
  assume n: "try_here c cs = None" and s: "try_here c (cs @ t) = Some r"
  from s Cons have c: "c = RBRACKET" and d: "d = LPAREN" and f: "find_close (ds @ t) = Some r"
    by (auto simp: try_here_def split: if_splits)
  from n Cons c d have "find_close ds = None" by (simp add: try_here_def)
  from find_close_late [OF this f] d Cons show "RPAREN \<notin> set cs" by simp
qed

lemma find_mid_extend_exact: "find_mid s = Some r \<Longrightarrow> find_mid (s @ t) = Some (r @ t)"
proof (induction s)
  case Nil
  then show ?case by simp
next
  case (Cons c cs)
  show ?case
  proof (cases "try_here c cs")
    case (Some r')
    with Cons.prems have "r' = r" by simp
    with Some have "try_here c (cs @ t) = Some (r @ t)" by (simp add: try_here_extend)
    then show ?thesis by simp
  next
    case None
    with Cons.prems have n: "c \<noteq> NL" and f: "find_mid cs = Some r" by (simp_all split: if_splits)
    have "try_here c (cs @ t) = None"
    proof (cases "try_here c (cs @ t)")
      case (Some x)
      from try_here_late [OF None Some] find_mid_paren [OF f] show ?thesis by blast
    qed simp
    with n Cons.IH [OF f] show ?thesis by simp
  qed
qed

lemma match_image_extend_exact:
  "match_image s = Some r \<Longrightarrow> match_image (s @ t) = Some (r @ t)"
proof -
  assume "match_image s = Some r"
  then obtain cs where s: "s = BANG # LBRACKET # cs" and f: "find_mid cs = Some r"
    using match_image_Some by blast
  from find_mid_extend_exact [OF f] s show ?thesis by simp
qed

lemma match_first:
  assumes "match_image s = Some r"
  shows "\<exists>m. s = m @ r \<and> first_image m s"
proof -
  from match_image_decomp [OF assms] obtain m where
    m: "s = m @ r" and mm: "match_image m = Some []" by blast
  have "\<forall>m'. prefix m' s \<and> image_syntax m' \<longrightarrow> length m \<le> length m'"
  proof (intro allI impI)
    fix m' assume a: "prefix m' s \<and> image_syntax m'"
    then obtain y where y: "s = m' @ y" by (auto simp: prefix_def)
    from a have "match_image (m' @ []) \<noteq> None" by (intro image_syntax_matches) simp
    then obtain t' where "match_image m' = Some t'" by auto
    then have "match_image (m' @ y) = Some (t' @ y)" by (rule match_image_extend_exact)
    with assms y have "r = t' @ y" by simp
    then have "length y \<le> length r" by simp
    moreover from m y have "length m + length r = length m' + length y"
      by (metis length_append)
    ultimately show "length m \<le> length m'" by simp
  qed
  with m mm have "s = m @ r \<and> first_image m s"
    by (simp add: first_image_def match_image_Nil_syntax)
  then show ?thesis by blast
qed

lemma first_match:
  assumes "first_image m (m @ rest)"
  shows "match_image (m @ rest) = Some rest"
proof -
  from assms have i: "image_syntax m"
    and least: "\<forall>m'. prefix m' (m @ rest) \<and> image_syntax m' \<longrightarrow> length m \<le> length m'"
    by (simp_all add: first_image_def)
  from i have "match_image (m @ rest) \<noteq> None" by (rule image_syntax_matches)
  then obtain r where r: "match_image (m @ rest) = Some r" by blast
  from match_first [OF r] obtain m0 where
    m0: "m @ rest = m0 @ r" and f0: "first_image m0 (m @ rest)" by blast
  from f0 i have "length m0 \<le> length m" by (simp add: first_image_def)
  moreover from least f0 have "length m \<le> length m0" by (simp add: first_image_def)
  ultimately have "length m = length m0" by simp
  with m0 have "rest = r" by simp
  with r show ?thesis by simp
qed

lemma strip_images_skip:
  "(\<forall>p s. k = p @ s \<and> s \<noteq> [] \<longrightarrow> match_image (s @ x) = None) \<Longrightarrow>
   strip_images (k @ x) = k @ strip_images x"
proof (induction k)
  case Nil
  show ?case by simp
next
  case (Cons c k)
  have "c # k = [] @ (c # k) \<and> c # k \<noteq> []" by simp
  with Cons.prems have n: "match_image ((c # k) @ x) = None" by blast
  have "\<forall>p s. k = p @ s \<and> s \<noteq> [] \<longrightarrow> match_image (s @ x) = None"
  proof (intro allI impI)
    fix p s assume "k = p @ s \<and> s \<noteq> []"
    then have "c # k = (c # p) @ s \<and> s \<noteq> []" by simp
    with Cons.prems show "match_image (s @ x) = None" by blast
  qed
  from Cons.IH [OF this] n show ?case by simp
qed

lemma strip_images_match: "match_image s = Some r \<Longrightarrow> strip_images s = strip_images r"
  by (cases s) simp_all

lemma leftmost_cuts_strip_images: "leftmost_cuts line res \<Longrightarrow> res = strip_images line"
proof (induction rule: leftmost_cuts.induct)
  case (keep line)
  then show ?case by (simp add: image_free_iff no_image_keeps)
next
  case (cut k m rest res)
  from cut(1) have "\<forall>p s. k = p @ s \<and> s \<noteq> [] \<longrightarrow> match_image (s @ m @ rest) = None"
    by (simp add: starts_image_iff)
  then have "strip_images (k @ m @ rest) = k @ strip_images (m @ rest)"
    by (rule strip_images_skip)
  moreover from first_match [OF cut(2)] have "strip_images (m @ rest) = strip_images rest"
    by (rule strip_images_match)
  ultimately show ?case using cut.IH by simp
qed

lemma strip_images_leftmost_cuts: "leftmost_cuts line (strip_images line)"
proof (induction line rule: strip_images.induct)
  case 1
  have "image_free []" by (simp add: image_free_iff)
  then show ?case using leftmost_cuts.keep [of "[]"] by simp
next
  case (2 c cs)
  show ?case
  proof (cases "match_image (c # cs)")
    case None
    with 2(1) have d: "leftmost_cuts cs (strip_images cs)" by simp
    from None have s: "strip_images (c # cs) = c # strip_images cs" by simp
    from d have "leftmost_cuts (c # cs) (c # strip_images cs)"
    proof (cases rule: leftmost_cuts.cases)
      case keep
      with None have "image_free (c # cs)" by (simp add: image_free_iff)
      then have "leftmost_cuts (c # cs) (c # cs)" by (rule leftmost_cuts.keep)
      with keep show ?thesis by simp
    next
      case (cut k m rest res)
      have "\<forall>p s. c # k = p @ s \<and> s \<noteq> [] \<longrightarrow> \<not> starts_image (s @ m @ rest)"
      proof (intro allI impI)
        fix p s assume a: "c # k = p @ s \<and> s \<noteq> []"
        show "\<not> starts_image (s @ m @ rest)"
        proof (cases p)
          case Nil
          with a have "s @ m @ rest = c # cs" using cut(1) by simp
          with None show ?thesis by (simp add: starts_image_iff)
        next
          case (Cons c' p')
          with a have "k = p' @ s \<and> s \<noteq> []" by simp
          with cut(3) show ?thesis by blast
        qed
      qed
      from leftmost_cuts.cut [OF this cut(4) cut(5)] cut(1) cut(2) show ?thesis by simp
    qed
    with s show ?thesis by simp
  next
    case (Some rest)
    with 2(2) have d: "leftmost_cuts rest (strip_images rest)" by simp
    from Some have s: "strip_images (c # cs) = strip_images rest" by simp
    from match_first [OF Some] obtain m where
      m: "c # cs = m @ rest" and f: "first_image m (c # cs)" by blast
    from f m have f': "first_image m (m @ rest)" by simp
    have v: "\<forall>p s. ([]::ustring) = p @ s \<and> s \<noteq> [] \<longrightarrow> \<not> starts_image (s @ m @ rest)" by simp
    from leftmost_cuts.cut [OF v f' d] have "leftmost_cuts (m @ rest) (strip_images rest)"
      by simp
    with m s show ?thesis by simp
  qed
qed

lemma leftmost_cuts_iff: "leftmost_cuts line res \<longleftrightarrow> res = strip_images line"
  using leftmost_cuts_strip_images strip_images_leftmost_cuts by blast

text \<open>
  Claim C2, as stated, has \<open>process_markdown\<close> remove every substring that matches
  \<open>![...](...)\<close>. The substitution makes one pass from the left and does not look again at
  text that becomes adjacent once a match is cut out: \<open>!![a](b)[x](y)\<close> loses \<open>![a](b)\<close>
  and what is returned, \<open>![x](y)\<close>, is itself an inline image.
\<close>

theorem process_markdown_has_image_left:
  "process_markdown (ustr ''!![a](b)[x](y)'') = ustr ''![x](y)'' \<and>
   has_image (process_markdown (ustr ''!![a](b)[x](y)''))"
  by (simp add: process_markdown_def try_here_def ustr_def)

text \<open>
  Claim C2, amended. \<open>process_markdown\<close> works line by line and keeps the lines in their
  order: the lines of the result are the images of the lines of the input under
  \<open>strip_images\<close>. On each line \<open>strip_images\<close> makes one pass from the left and returns
  exactly what \<open>leftmost_cuts\<close> describes: at the leftmost position where a text of the
  shape \<open>![a](b)\<close> begins, the shortest such text is cut out, the pass goes on after it, and
  what was kept before is not looked at again. A line in which no text of this shape occurs
  is returned unchanged.
\<close>

theorem process_markdown_lines:
  "split_nl (process_markdown text) = map strip_images (split_nl text) \<and>
   (\<forall>line res. leftmost_cuts line res \<longleftrightarrow> res = strip_images line) \<and>
   (\<forall>line. image_free line \<longrightarrow> strip_images line = line)"
  using split_process_markdown leftmost_cuts_iff no_image_keeps image_free_iff by blast

theorem process_markdown_lines_witness:
  "split_nl (process_markdown (ustr ''a![x![y](z)b'' @ NL # ustr ''c(d)'')) =
     [ustr ''ab'', ustr ''c(d)''] \<and>
   leftmost_cuts (ustr ''a![x![y](z)b'') (ustr ''ab'') \<and>
   \<not> leftmost_cuts (ustr ''a![x![y](z)b'') (ustr ''a![xb'') \<and>
   image_free (ustr ''c(d)'') \<and> strip_images (ustr ''c(d)'') = ustr ''c(d)''"
proof -
  have s: "split_nl (ustr ''a![x![y](z)b'' @ NL # ustr ''c(d)'') =
      [ustr ''a![x![y](z)b'', ustr ''c(d)'']"
    by (simp add: ustr_def)
  have i1: "strip_images (ustr ''a![x![y](z)b'') = ustr ''ab''"
    by (simp add: try_here_def ustr_def)
  have d: "ustr ''a![xb'' \<noteq> ustr ''ab''" by (simp add: ustr_def)
  have n: "image_free (ustr ''c(d)'')" by (simp add: image_free_iff try_here_def ustr_def)
  note r = process_markdown_lines [of "ustr ''a![x![y](z)b'' @ NL # ustr ''c(d)''"]
  from r have a: "split_nl (process_markdown (ustr ''a![x![y](z)b'' @ NL # ustr ''c(d)'')) =
      map strip_images (split_nl (ustr ''a![x![y](z)b'' @ NL # ustr ''c(d)''))"
    by blast
  from r have b: "leftmost_cuts (ustr ''a![x![y](z)b'') (ustr ''ab'') \<longleftrightarrow>
      ustr ''ab'' = strip_images (ustr ''a![x![y](z)b'')"
    by blast
  from r have b2: "leftmost_cuts (ustr ''a![x![y](z)b'') (ustr ''a![xb'') \<longleftrightarrow>
      ustr ''a![xb'' = strip_images (ustr ''a![x![y](z)b'')"
    by blast
  from r have c: "image_free (ustr ''c(d)'') \<longrightarrow> strip_images (ustr ''c(d)'') = ustr ''c(d)''"
    by blast
  from c n have c': "strip_images (ustr ''c(d)'') = ustr ''c(d)''" by blast
  from a s i1 c' have a': "split_nl (process_markdown (ustr ''a![x![y](z)b'' @ NL # ustr ''c(d)'')) =
     [ustr ''ab'', ustr ''c(d)'']" by simp
  from b i1 have b': "leftmost_cuts (ustr ''a![x![y](z)b'') (ustr ''ab'')" by simp
  from b2 i1 d have b2': "\<not> leftmost_cuts (ustr ''a![x![y](z)b'') (ustr ''a![xb'')" by simp
  from a' b' b2' n c' show ?thesis by blast
qed

section \<open>Properties of convert\_to\_jekyll\_post\<close>

lemma map_of_issue42:
  "map_of issue42 (ustr ''title'') = Some (PyStr (ustr ''Hello World''))"
  "map_of issue42 (ustr ''body'') = Some (PyStr (ustr ''some text''))"
  "map_of issue42 (ustr ''created_at'') = Some (PyStr (ustr ''2023-01-15T10:30:00Z''))"
  "map_of issue42 (ustr ''updated_at'') = Some (PyStr (ustr ''2023-01-16T08:00:00Z''))"
  "map_of issue42 (ustr ''number'') = Some (PyInt 42)"
  by (simp_all add: issue42_def ustr_def)

lemma replace_Z_created:
  "replace_Z (ustr ''2023-01-15T10:30:00Z'') = ustr ''2023-01-15T10:30:00+00:00''"
  by (simp add: replace_Z_def ustr_def)

lemma replace_Z_updated:
  "replace_Z (ustr ''2023-01-16T08:00:00Z'') = ustr ''2023-01-16T08:00:00+00:00''"
  by (simp add: replace_Z_def ustr_def)

lemma sanitize_hello: "sanitize_filename pad n (ustr ''Hello World'') = ustr ''Hello-World''"
  by (simp add: sanitize_filename_def clean_title_def ustr_def unsafe_char_def unsafe_chars_def
      is_space_def strip_chars_def)

lemma strftime_date_created: "strftime_date pad created42 = ustr ''2023-01-15''"
  by (simp add: strftime_date_def created42_def strftime_Y_2023 zfill_def decimal_lt_10
      decimal_ge_10 ustr_def)

lemma body_some_text:
  "body_content t (PyStr (ustr ''some text'')) = Inr (ustr ''some text'')"
  by (simp add: body_content_def strip_chars_def is_space_def process_markdown_def ustr_def)

lemma str_int_42: "str_int 42 = ustr ''42''"
  by (simp add: str_int_def decimal_lt_10 decimal_ge_10 ustr_def)

lemma strftime_full_created:
  "strftime_full pad created42 = ustr ''2023-01-15 10:30:00 +0000''"
  by (simp add: strftime_full_def strftime_date_def strftime_z_def created42_def updated42_def
      strftime_Y_2023 zfill_def
      decimal_lt_10 decimal_ge_10 ustr_def)

lemma strftime_full_updated:
  "strftime_full pad updated42 = ustr ''2023-01-16 08:00:00 +0000''"
  by (simp add: strftime_full_def strftime_date_def strftime_z_def created42_def updated42_def
      strftime_Y_2023 zfill_def
      decimal_lt_10 decimal_ge_10 ustr_def)

lemma header42_lines:
  "take 8 (split_nl header42) =
     [ustr ''---'',
      ustr ''title: '' @ [34] @ ustr ''Hello World'' @ [34],
      ustr ''date: 2023-01-15 10:30:00 +0000'',
      ustr ''last_modified_at: 2023-01-16 08:00:00 +0000'',
      ustr ''categories: [Gitee Issues]'',
      ustr ''tags: [42]  # '' @ [20351, 29992] @ ustr ''issue'' @ [32534, 21495, 20316, 20026] @
        ustr ''tag'',
      ustr ''comments: true'',
      ustr ''---'']"
  by (simp add: header42_def front_matter_def strftime_full_created strftime_full_updated
      repo_owner_def repo_name_def ustr_def)

lemma front_matter_42:
  "front_matter pad (ustr ''Hello World'') created42 updated42 (ustr ''42'') = header42"
  by (simp add: header42_def front_matter_def strftime_full_created strftime_full_updated)

lemma env42_sel:
  "clock env42 = clock0" "fromisoformat env42 = parser42" "posts_dir env42 = ustr ''/site/_posts''"
  "list_reply env42 = Response 200 [] (Some [issue42])"
  "detail_reply env42 n = Response 200 [] (Some issue42)"
  "save_outcome env42 name content = Saved"
  "exists_raises env42 name = False"
  "pad_year env42 = False"
  by (simp_all add: env42_def)

lemma convert_issue42:
  assumes "fromisoformat e (ustr ''2023-01-15T10:30:00+00:00'') = Some created42"
    and "fromisoformat e (ustr ''2023-01-16T08:00:00+00:00'') = Some updated42"
  shows "convert_to_jekyll_post e issue42 = Inr (name42, header42 @ ustr ''some text'')"
proof -
  have p1: "parse_datetime e (PyStr (ustr ''2023-01-15T10:30:00Z'')) = Inr created42"
    using assms(1) by (simp add: parse_datetime_def replace_Z_created)
  have p2: "parse_datetime e (PyStr (ustr ''2023-01-16T08:00:00Z'')) = Inr updated42"
    using assms(2) by (simp add: parse_datetime_def replace_Z_updated)
  have fn: "\<And>pad. strftime_date pad created42 @ HYPHEN # ustr ''Hello-World'' @ ustr ''.md'' = name42"
    by (simp add: strftime_date_created name42_def) (simp add: ustr_def)
  have ne: "ustr ''some text'' \<noteq> []" by (simp add: ustr_def)
  show ?thesis
    unfolding convert_to_jekyll_post_def getitem_def get_or_def
    by (simp add: map_of_issue42 and_then_def p1 p2 sanitize_hello body_some_text str_int_42
        fn ne front_matter_42)
qed

lemma convert_env42: "convert_to_jekyll_post env42 issue42 = Inr (name42, header42 @ ustr ''some text'')"
proof (rule convert_issue42)
  show "fromisoformat env42 (ustr ''2023-01-15T10:30:00+00:00'') = Some created42"
    by (simp add: env42_sel parser42_def)
  show "fromisoformat env42 (ustr ''2023-01-16T08:00:00+00:00'') = Some updated42"
    by (simp add: env42_sel parser42_def ustr_def)
qed

text \<open>
  Claim C1. For the record with number 42, title \<open>Hello World\<close>, body \<open>some text\<close>,
  created \<open>2023-01-15T10:30:00Z\<close> and updated \<open>2023-01-16T08:00:00Z\<close>, and a library parser
  that reads the two time stamps as those instants in UTC, \<open>convert_to_jekyll_post\<close>
  returns the file name \<open>2023-01-15-Hello-World.md\<close> and the header followed by the body
  \<open>some text\<close> unchanged; the second line of the header is \<open>title: "Hello World"\<close> and its
  sixth line starts with \<open>tags: [42]\<close>.
\<close>

theorem convert_round_trip:
  assumes "fromisoformat e (ustr ''2023-01-15T10:30:00+00:00'') = Some created42"
    and "fromisoformat e (ustr ''2023-01-16T08:00:00+00:00'') = Some updated42"
  shows "convert_to_jekyll_post e issue42 =
           Inr (ustr ''2023-01-15-Hello-World.md'', header42 @ ustr ''some text'') \<and>
         split_nl header42 ! 1 = ustr ''title: '' @ [34] @ ustr ''Hello World'' @ [34] \<and>
         prefix (ustr ''tags: [42]'') (split_nl header42 ! 5)"
proof -
  have c: "convert_to_jekyll_post e issue42 =
           Inr (ustr ''2023-01-15-Hello-World.md'', header42 @ ustr ''some text'')"
    using convert_issue42 [OF assms] by (simp add: name42_def)
  have l1: "split_nl header42 ! 1 = ustr ''title: '' @ [34] @ ustr ''Hello World'' @ [34]"
    using arg_cong [OF header42_lines, of "\<lambda>l. l ! 1"] by simp
  have "split_nl header42 ! 5 = ustr ''tags: [42]  # '' @ [20351, 29992] @ ustr ''issue'' @
      [32534, 21495, 20316, 20026] @ ustr ''tag''"
    using arg_cong [OF header42_lines, of "\<lambda>l. l ! 5"] by simp
  then have l5: "prefix (ustr ''tags: [42]'') (split_nl header42 ! 5)"
    by (simp add: ustr_def)
  from c l1 l5 show ?thesis by blast
qed

theorem convert_round_trip_witness:
  "fromisoformat env42 (ustr ''2023-01-15T10:30:00+00:00'') = Some created42 \<and>
   fromisoformat env42 (ustr ''2023-01-16T08:00:00+00:00'') = Some updated42 \<and>
   convert_to_jekyll_post env42 issue42 =
     Inr (ustr ''2023-01-15-Hello-World.md'', header42 @ ustr ''some text'') \<and>
   split_nl header42 ! 1 = ustr ''title: '' @ [34] @ ustr ''Hello World'' @ [34] \<and>
   prefix (ustr ''tags: [42]'') (split_nl header42 ! 5)"
proof -
  have h1: "fromisoformat env42 (ustr ''2023-01-15T10:30:00+00:00'') = Some created42"
    by (simp add: env42_def parser42_def)
  have h2: "fromisoformat env42 (ustr ''2023-01-16T08:00:00+00:00'') = Some updated42"
    by (simp add: env42_def parser42_def ustr_def)
  from h1 h2 convert_round_trip [OF h1 h2] show ?thesis by blast
qed

lemma strip_chars_all: "list_all P b \<Longrightarrow> strip_chars P b = []"
proof -
  assume "list_all P b"
  then have "dropWhile P b = []" by (simp add: list_all_iff)
  then show ?thesis unfolding strip_chars_def by (simp only: rev.simps dropWhile.simps)
qed

lemma placeholder_nonempty: "placeholder t \<noteq> []"
  by (simp add: placeholder_def ustr_def)

lemma placeholder_embeds: "prefix (ustr ''**'' @ t @ ustr ''**'') (placeholder t)"
  by (simp add: placeholder_def)

lemma body_content_blank:
  "list_all is_space b \<Longrightarrow> body_content t (PyStr b) = Inr (placeholder t)"
  by (simp add: body_content_def strip_chars_all)

lemma convert_blank_body:
  assumes t: "map_of issue (ustr ''title'') = Some (PyStr t)"
    and c: "map_of issue (ustr ''created_at'') = Some (PyStr c)"
    and pc: "fromisoformat e (replace_Z c) = Some cd"
    and pu: "parse_datetime e (get_or issue (ustr ''updated_at'') (PyStr c)) = Inr ud"
    and blank: "\<not> truthy (get_or issue (ustr ''body'') (PyStr [])) \<or>
       (\<exists>b. get_or issue (ustr ''body'') (PyStr []) = PyStr b \<and> list_all is_space b)"
  shows "convert_to_jekyll_post e issue =
     Inr (strftime_date (pad_year e) cd @ [HYPHEN] @ sanitize_filename (pad_year e) (clock e) t @ ustr ''.md'',
          front_matter (pad_year e) t cd ud (py_str (get_or issue (ustr ''number'') (PyStr []))) @
          placeholder t)"
proof -
  let ?b = "get_or issue (ustr ''body'') (PyStr [])"
  have bc: "body_content t (if truthy ?b then ?b else PyStr []) = Inr (placeholder t)"
  proof (cases "truthy ?b")
    case True
    with blank obtain b where "?b = PyStr b" "list_all is_space b" by blast
    with True show ?thesis by (simp add: body_content_blank)
  next
    case False
    then show ?thesis by (simp add: body_content_blank)
  qed
  have p1: "parse_datetime e (PyStr c) = Inr cd" using pc by (simp add: parse_datetime_def)
  show ?thesis
    unfolding convert_to_jekyll_post_def
    by (simp add: getitem_def t c and_then_def p1 pu Let_def bc)
qed

text \<open>
  Claim C6. For every record with a string title, time stamps that the library parser
  accepts, and a body that is a string of white space only (the empty string included),
  \<open>convert_to_jekyll_post\<close> returns the header followed by the fixed sentence of line 114,
  written out here by its code points: the title between two pairs of asterisks, an empty
  line, and a quoted line with the notice (in Chinese: this article comes from a Gitee
  Issue, its content is empty, the title has automatically been used as content, ending in
  an ideographic full stop). This text is not empty.
\<close>

theorem convert_blank_body_placeholder:
  assumes "map_of issue (ustr ''title'') = Some (PyStr t)"
    and "map_of issue (ustr ''body'') = Some (PyStr b)"
    and "list_all is_space b"
    and "map_of issue (ustr ''created_at'') = Some (PyStr c)"
    and "fromisoformat e (replace_Z c) = Some cd"
    and "parse_datetime e (get_or issue (ustr ''updated_at'') (PyStr c)) = Inr ud"
  shows "convert_to_jekyll_post e issue =
     Inr (strftime_date (pad_year e) cd @ [HYPHEN] @ sanitize_filename (pad_year e) (clock e) t @
            ustr ''.md'',
          front_matter (pad_year e) t cd ud (py_str (get_or issue (ustr ''number'') (PyStr []))) @
          (ustr ''**'' @ t @ ustr ''**'' @ [NL, NL] @ ustr ''> '' @
           [27492, 25991, 31456, 26469, 33258] @ ustr ''Gitee Issue'' @
           [65292, 20869, 23481, 20026, 31354, 65292, 24050, 33258, 21160, 20351, 29992, 26631,
            39064, 20316, 20026, 20869, 23481, 12290])) \<and>
     (ustr ''**'' @ t @ ustr ''**'' @ [NL, NL] @ ustr ''> '' @
      [27492, 25991, 31456, 26469, 33258] @ ustr ''Gitee Issue'' @
      [65292, 20869, 23481, 20026, 31354, 65292, 24050, 33258, 21160, 20351, 29992, 26631,
       39064, 20316, 20026, 20869, 23481, 12290]) \<noteq> []"
proof -
  from assms(2) have "get_or issue (ustr ''body'') (PyStr []) = PyStr b"
    by (simp add: get_or_def)
  with assms(3) have "\<not> truthy (get_or issue (ustr ''body'') (PyStr [])) \<or>
       (\<exists>b. get_or issue (ustr ''body'') (PyStr []) = PyStr b \<and> list_all is_space b)" by simp
  from convert_blank_body [OF assms(1) assms(4) assms(5) assms(6) this]
  show ?thesis by (simp add: placeholder_def ustr_def)
qed

lemma env42_parses:
  "fromisoformat env42 (replace_Z (ustr ''2023-01-15T10:30:00Z'')) = Some created42"
  "parse_datetime env42 (PyStr (ustr ''2023-01-16T08:00:00Z'')) = Inr updated42"
  by (simp_all add: parse_datetime_def replace_Z_created replace_Z_updated env42_def parser42_def)
     (simp add: ustr_def)

lemma name42_env42:
  "strftime_date (pad_year env42) created42 @ [HYPHEN] @
   sanitize_filename (pad_year env42) (clock env42) (ustr ''Hello World'') @ ustr ''.md'' =
   ustr ''2023-01-15-Hello-World.md''"
  by (simp add: strftime_date_created sanitize_hello) (simp add: ustr_def)

theorem convert_blank_body_placeholder_witness:
  "map_of issue_blank (ustr ''title'') = Some (PyStr (ustr ''Hello World'')) \<and>
   map_of issue_blank (ustr ''body'') = Some (PyStr [32, 9, NL]) \<and>
   list_all is_space [32, 9, NL] \<and>
   map_of issue_blank (ustr ''created_at'') = Some (PyStr (ustr ''2023-01-15T10:30:00Z'')) \<and>
   fromisoformat env42 (replace_Z (ustr ''2023-01-15T10:30:00Z'')) = Some created42 \<and>
   convert_to_jekyll_post env42 issue_blank =
     Inr (ustr ''2023-01-15-Hello-World.md'',
          header42 @
          (ustr ''**'' @ ustr ''Hello World'' @ ustr ''**'' @ [NL, NL] @ ustr ''> '' @
           [27492, 25991, 31456, 26469, 33258] @ ustr ''Gitee Issue'' @
           [65292, 20869, 23481, 20026, 31354, 65292, 24050, 33258, 21160, 20351, 29992, 26631,
            39064, 20316, 20026, 20869, 23481, 12290]))"
proof -
  have t: "map_of issue_blank (ustr ''title'') = Some (PyStr (ustr ''Hello World''))"
    and b: "map_of issue_blank (ustr ''body'') = Some (PyStr [32, 9, NL])"
    and c: "map_of issue_blank (ustr ''created_at'') = Some (PyStr (ustr ''2023-01-15T10:30:00Z''))"
    and u: "get_or issue_blank (ustr ''updated_at'') (PyStr (ustr ''2023-01-15T10:30:00Z'')) =
        PyStr (ustr ''2023-01-16T08:00:00Z'')"
    and n: "get_or issue_blank (ustr ''number'') (PyStr []) = PyInt 42"
    by (simp_all add: issue_blank_def get_or_def ustr_def)
  have ws: "list_all is_space [32, 9, NL]" by (simp add: is_space_def)
  have pu: "parse_datetime env42 (get_or issue_blank (ustr ''updated_at'')
      (PyStr (ustr ''2023-01-15T10:30:00Z''))) = Inr updated42"
    by (simp only: u env42_parses)
  note r = convert_blank_body_placeholder [OF t b ws c env42_parses(1) pu,
      unfolded name42_env42 n py_str.simps str_int_42 front_matter_42, THEN conjunct1]
  from t b ws c env42_parses(1) r show ?thesis by blast
qed






section \<open>Properties of generate\_articles\<close>

lemma files_emit [simp]: "files (emit st line) = files st"
  by (simp add: emit_def)

lemma generated_count_emit [simp]: "generated_count (emit st line) = generated_count st"
  by (simp add: emit_def)

lemma out_emit [simp]: "out (emit st line) = out st @ [line]"
  by (simp add: emit_def)

lemma try_get_failure: "http_failure reply \<Longrightarrow> try_get e reply = RequestException (failure_text reply)"
  by (cases reply) (simp_all add: http_failure_def failure_text_def try_get_def)

lemma get_all_issues_failure:
  "http_failure (list_reply e) \<Longrightarrow>
   get_all_issues e st =
     (emit (emit st msg_fetching) (msg_list_failed (failure_text (list_reply e))), Inr [])"
  by (simp add: get_all_issues_def try_get_failure)

lemma get_issue_content_failure:
  "http_failure (detail_reply e n) \<Longrightarrow>
   get_issue_content e st n =
     (emit st (msg_detail_failed n (failure_text (detail_reply e n))), Inr None)"
  by (simp add: get_issue_content_def try_get_failure)

lemma process_issue_detail_failure:
  assumes "truthy (get_or issue (ustr ''number'') PyNone)"
    and "getitem issue (ustr ''title'') = Inr (PyStr t)"
    and "http_failure (detail_reply e (get_or issue (ustr ''number'') PyNone))"
  shows "process_issue e st issue =
     (emit (emit st (msg_processing (get_or issue (ustr ''number'') PyNone) (take 50 t)))
        (msg_detail_failed (get_or issue (ustr ''number'') PyNone)
           (failure_text (detail_reply e (get_or issue (ustr ''number'') PyNone)))),
      None)"
  using assms
  by (simp add: process_issue_def and_then_def slice50_def get_issue_content_failure Let_def)

lemma get_issue_content_files:
  "get_issue_content e st n = (st', r) \<Longrightarrow>
   files st' = files st \<and> generated_count st' = generated_count st"
  by (auto simp: get_issue_content_def split: tried.splits)

lemma get_all_issues_files:
  "get_all_issues e st = (st', r) \<Longrightarrow>
   files st' = files st \<and> generated_count st' = generated_count st"
  by (auto simp: get_all_issues_def Let_def split: tried.splits)

lemma update_fresh: "k \<notin> fst ` set al \<Longrightarrow> AList.update k v al = al @ [(k, v)]"
  by (induction al) auto

lemma save_article_cases:
  assumes "save_article e st name content = (st', ok)" and "name \<notin> fst ` set (files st)"
  shows "(ok \<and> files st' = files st @ [(name, content)] \<and> generated_count st' = generated_count st) \<or>
         (\<not> ok \<and> untouched st st') \<or>
         (\<not> ok \<and> generated_count st' = generated_count st \<and>
            (\<exists>err partial. save_outcome e name content = SaveFailed err (Some partial) \<and>
               files st' = files st @ [(name, partial)]))"
proof (cases "save_outcome e name content")
  case Saved
  with assms show ?thesis by (auto simp: save_article_def update_fresh)
next
  case (SaveFailed err left)
  with assms show ?thesis
    by (cases left) (auto simp: save_article_def update_fresh untouched_def)
qed

lemma process_issue_cases:
  assumes "process_issue e st issue = (st', r)"
  shows "untouched st st' \<or> wrote_new st st' \<or> left_partial e st st'"
proof -
  let ?number = "get_or issue (ustr ''number'') PyNone"
  show ?thesis
  proof (cases "truthy ?number")
    case False
    with assms show ?thesis by (simp add: process_issue_def untouched_def)
  next
    case True
    note num = this
    show ?thesis
    proof (cases "and_then (getitem issue (ustr ''title'')) slice50")
      case (Inl x)
      with assms num show ?thesis by (simp add: process_issue_def untouched_def)
    next
      case (Inr title50)
      let ?st1 = "emit st (msg_processing ?number title50)"
      obtain st2 d where g: "get_issue_content e ?st1 ?number = (st2, d)" by (cases "get_issue_content e ?st1 ?number")
      from get_issue_content_files [OF g] have u2: "untouched st st2"
        by (simp add: untouched_def)
      from assms num Inr g have rest:
        "(case d of
            Inl x \<Rightarrow> (st2, Some x)
          | Inr None \<Rightarrow> (st2, None)
          | Inr (Some issue_detail) \<Rightarrow>
              if issue_detail = [] then (st2, None)
              else
                (case convert_to_jekyll_post e issue_detail of
                   Inl x \<Rightarrow> (st2, Some x)
                 | Inr (filename, content) \<Rightarrow>
                     (case path_exists e st2 filename of
                        Inl x \<Rightarrow> (st2, Some x)
                      | Inr True \<Rightarrow> (emit st2 (msg_exists filename), None)
                      | Inr False \<Rightarrow>
                          (case save_article e st2 filename content of
                             (st, True) \<Rightarrow> (st\<lparr>generated_count := generated_count st + 1\<rparr>, None)
                           | (st, False) \<Rightarrow> (st, None))))) = (st', r)"
        by (simp add: process_issue_def Let_def)
      show ?thesis
      proof (cases d)
        case (Inl x)
        with rest u2 show ?thesis by auto
      next
        case dr: (Inr od)
        show ?thesis
        proof (cases od)
          case None
          with rest dr u2 show ?thesis by auto
        next
          case (Some issue_detail)
          show ?thesis
          proof (cases "issue_detail = []")
            case True
            with rest dr Some u2 show ?thesis by auto
          next
            case ne: False
            show ?thesis
            proof (cases "convert_to_jekyll_post e issue_detail")
              case (Inl x)
              with rest dr Some ne u2 show ?thesis by auto
            next
              case (Inr fc)
              obtain filename content where fc: "fc = (filename, content)" by (cases fc)
              show ?thesis
              proof (cases "path_exists e st2 filename = Inr False")
                case False
                then have "(\<exists>x. path_exists e st2 filename = Inl x) \<or>
                    path_exists e st2 filename = Inr True"
                  by (cases "path_exists e st2 filename") auto
                with rest dr Some ne Inr fc have "st' = st2 \<or> st' = emit st2 (msg_exists filename)"
                  by auto
                with u2 show ?thesis by (auto simp: untouched_def)
              next
                case absent: True
                then have fresh: "filename \<notin> fst ` set (files st2)"
                  by (auto simp: path_exists_def split: if_splits)
                obtain st3 ok where sv: "save_article e st2 filename content = (st3, ok)"
                  by (cases "save_article e st2 filename content")
                from rest dr Some ne Inr fc absent sv
                have st': "st' = (if ok then st3\<lparr>generated_count := generated_count st3 + 1\<rparr> else st3)"
                  by (cases ok) auto
                from u2 have f2: "files st2 = files st" and c2: "generated_count st2 = generated_count st"
                  by (simp_all add: untouched_def)
                from save_article_cases [OF sv fresh] show ?thesis
                proof (elim disjE conjE exE)
                  assume "ok" "files st3 = files st2 @ [(filename, content)]"
                    "generated_count st3 = generated_count st2"
                  with st' f2 c2 fresh have "wrote_new st st'"
                    unfolding wrote_new_def by auto
                  then show ?thesis by blast
                next
                  assume "\<not> ok" "untouched st2 st3"
                  with st' f2 c2 have "untouched st st'" by (simp add: untouched_def)
                  then show ?thesis by blast
                next
                  fix err partial
                  assume "\<not> ok" "generated_count st3 = generated_count st2"
                    "save_outcome e filename content = SaveFailed err (Some partial)"
                    "files st3 = files st2 @ [(filename, partial)]"
                  with st' f2 c2 fresh have "left_partial e st st'"
                    unfolding left_partial_def by auto
                  then show ?thesis by blast
                qed
              qed
            qed
          qed
        qed
      qed
    qed
  qed
qed

lemma keeps_refl: "files st' = files st \<Longrightarrow> keeps st st'"
  by (simp add: keeps_def)

lemma keeps_trans: "keeps a b \<Longrightarrow> keeps b c \<Longrightarrow> keeps a c"
  by (simp add: keeps_def)

lemma keeps_append: "files st' = files st @ new \<Longrightarrow> keeps st st'"
  by (simp add: keeps_def map_of_append)

lemma process_issue_keeps: "process_issue e st issue = (st', r) \<Longrightarrow> keeps st st'"
  using process_issue_cases [of e st issue st' r]
  by (auto simp: untouched_def wrote_new_def left_partial_def intro: keeps_refl keeps_append)

lemma process_issues_keeps: "process_issues e st issues = (st', r) \<Longrightarrow> keeps st st'"
proof (induction issues arbitrary: st)
  case Nil
  then show ?case by (simp add: keeps_refl)
next
  case (Cons issue issues)
  obtain st1 r1 where p: "process_issue e st issue = (st1, r1)"
    by (cases "process_issue e st issue")
  then have k1: "keeps st st1" by (rule process_issue_keeps)
  show ?case
  proof (cases r1)
    case None
    with Cons.prems p have "process_issues e st1 issues = (st', r)" by simp
    then have "keeps st1 st'" by (rule Cons.IH)
    with k1 show ?thesis by (rule keeps_trans)
  next
    case (Some x)
    with Cons.prems p have "st' = st1" by simp
    with k1 show ?thesis by simp
  qed
qed

lemma process_issue_exists:
  assumes "truthy (get_or issue (ustr ''number'') PyNone)"
    and "and_then (getitem issue (ustr ''title'')) slice50 = Inr title50"
    and "try_get e (detail_reply e (get_or issue (ustr ''number'') PyNone)) = Returned d"
    and "d \<noteq> []"
    and "convert_to_jekyll_post e d = Inr (filename, content)"
    and "filename \<in> fst ` set (files st)"
  shows "process_issue e st issue =
     (emit (emit st (msg_processing (get_or issue (ustr ''number'') PyNone) title50))
        (msg_exists filename), None)"
  using assms by (simp add: process_issue_def get_issue_content_def path_exists_def Let_def)

lemma generate_articles_keeps:
  assumes "generate_articles e st = (st', r)"
  shows "keeps st st'"
proof -
  let ?st1 = "emit (emit st msg_start) msg_rule"
  obtain st2 g where g: "get_all_issues e ?st1 = (st2, g)" by (cases "get_all_issues e ?st1")
  from get_all_issues_files [OF g] have f2: "files st2 = files st" by simp
  show ?thesis
  proof (cases g)
    case (Inl x)
    with assms g have "st' = st2" by (simp add: generate_articles_def)
    with f2 show ?thesis by (simp add: keeps_refl)
  next
    case (Inr issues)
    show ?thesis
    proof (cases "issues = []")
      case True
      with assms g Inr have "st' = emit st2 msg_no_issues" by (simp add: generate_articles_def)
      with f2 show ?thesis by (simp add: keeps_refl)
    next
      case False
      let ?st3 = "st2\<lparr>generated_count := 0\<rparr>"
      obtain st4 r4 where p: "process_issues e ?st3 issues = (st4, r4)"
        by (cases "process_issues e ?st3 issues")
      then have "keeps ?st3 st4" by (rule process_issues_keeps)
      moreover have "keeps st ?st3" using f2 by (simp add: keeps_refl)
      ultimately have k: "keeps st st4" using keeps_trans by blast
      from assms g Inr False p have "files st' = files st4"
        by (cases r4) (auto simp: generate_articles_def)
      then have "keeps st4 st'" by (rule keeps_refl)
      with k show ?thesis using keeps_trans by blast
    qed
  qed
qed


lemma summary_lines_cong:
  "files st' = files st \<Longrightarrow> generated_count st' = generated_count st \<Longrightarrow>
   summary_lines e st' = summary_lines e st"
  by (simp add: summary_lines_def md_files_def)


lemma issue42_fields:
  "get_or issue42 (ustr ''number'') PyNone = PyInt 42"
  "and_then (getitem issue42 (ustr ''title'')) slice50 = Inr (ustr ''Hello World'')"
  "issue42 \<noteq> []"
  by (simp_all add: get_or_def getitem_def map_of_issue42 and_then_def slice50_def)
     (simp_all add: ustr_def issue42_def)

lemma try_get_env42:
  "try_get env42 (list_reply env42) = Returned [issue42]"
  "try_get env42 (detail_reply env42 n) = Returned issue42"
  by (simp_all add: try_get_def env42_sel raise_for_status_def)

lemma name42_md: "suffix (ustr ''.md'') name42"
  by (simp add: suffix_to_prefix name42_def ustr_def)

lemma process_issue42_fresh:
  "process_issue env42 (st\<lparr>files := []\<rparr>) issue42 =
     ((emit (emit (st\<lparr>files := []\<rparr>) (msg_processing (PyInt 42) (ustr ''Hello World'')))
         (msg_saved name42))
       \<lparr>files := [(name42, header42 @ ustr ''some text'')],
        generated_count := generated_count st + 1\<rparr>, None)"
  by (simp add: process_issue_def issue42_fields get_issue_content_def try_get_env42 convert_env42
      save_article_def path_exists_def env42_sel(6,7) emit_def Let_def)

lemma generate_env42_state0: "generate_articles env42 state0 = (final42, None)"
proof -
  have s: "state0 = state0\<lparr>files := []\<rparr>" by (simp add: state0_def)
  have "process_issues env42
      ((emit (emit (emit (emit state0 msg_start) msg_rule) msg_fetching)
          (msg_fetched (length [issue42])))\<lparr>generated_count := 0, files := []\<rparr>) [issue42] =
     (final42\<lparr>out := take 6 (out final42)\<rparr>, None)"
    by (simp add: process_issue42_fresh) (simp add: emit_def state0_def final42_def)
  moreover have "(emit (emit (emit (emit state0 msg_start) msg_rule) msg_fetching)
          (msg_fetched (length [issue42])))\<lparr>generated_count := 0, files := []\<rparr> =
      (emit (emit (emit (emit state0 msg_start) msg_rule) msg_fetching)
          (msg_fetched (length [issue42])))\<lparr>generated_count := 0\<rparr>"
    by (simp add: emit_def state0_def)
  ultimately have p: "process_issues env42
      ((emit (emit (emit (emit state0 msg_start) msg_rule) msg_fetching)
          (msg_fetched (length [issue42])))\<lparr>generated_count := 0\<rparr>) [issue42] =
     (final42\<lparr>out := take 6 (out final42)\<rparr>, None)" by simp
  have m: "md_files (final42\<lparr>out := take 6 (out final42)\<rparr>) = [name42]"
    by (simp add: md_files_def final42_def name42_md)
  have su: "summary_lines env42 (final42\<lparr>out := take 6 (out final42)\<rparr>) = drop 6 (out final42)"
    by (simp add: summary_lines_def m env42_sel) (simp add: final42_def)
  have "generate_articles env42 state0 =
      ((final42\<lparr>out := take 6 (out final42)\<rparr>)\<lparr>out := take 6 (out final42) @ drop 6 (out final42)\<rparr>, None)"
    unfolding generate_articles_def get_all_issues_def Let_def
    using p su by (simp add: try_get_env42)
  then show ?thesis by simp
qed

lemma env_down_sel:
  "list_reply env_down = RequestFailed (ustr ''timed out'')"
  "detail_reply env_down n = Response 404 (ustr ''404 Client Error'') None"
  by (simp_all add: env_down_def)

lemma env_down_failures:
  "http_failure (list_reply env_down)" "http_failure (detail_reply env_down n)"
  "failure_text (list_reply env_down) = ustr ''timed out''"
  "failure_text (detail_reply env_down n) = ustr ''404 Client Error''"
  by (simp_all add: env_down_sel http_failure_def failure_text_def raise_for_status_def)

lemma issue42_title: "getitem issue42 (ustr ''title'') = Inr (PyStr (ustr ''Hello World''))"
  by (simp add: getitem_def map_of_issue42)

lemma take50_hello: "take 50 (ustr ''Hello World'') = ustr ''Hello World''"
  by (simp add: ustr_def)

lemma process_issue42_old:
  "process_issue env42 state_old issue42 =
     (emit (emit state_old (msg_processing (PyInt 42) (ustr ''Hello World'')))
        (msg_exists name42), None)"
proof -
  have "name42 \<in> fst ` set (files state_old)" by (simp add: state_old_def)
  from process_issue_exists [of issue42 "ustr ''Hello World''" env42 issue42 name42
      "header42 @ ustr ''some text''" state_old, unfolded issue42_fields(1)] this
  show ?thesis
    by (simp add: issue42_fields try_get_env42 convert_env42)
qed

lemma generate_env42_state_old: "generate_articles env42 state_old = (final_old, None)"
proof -
  have p: "process_issues env42
      ((emit (emit (emit (emit state_old msg_start) msg_rule) msg_fetching)
          (msg_fetched (length [issue42])))\<lparr>generated_count := 0\<rparr>) [issue42] =
     (final_old\<lparr>out := take 6 (out final_old)\<rparr>, None)"
  proof -
    have e: "(emit (emit (emit (emit state_old msg_start) msg_rule) msg_fetching)
          (msg_fetched (length [issue42])))\<lparr>generated_count := 0\<rparr> =
        state_old\<lparr>out := [msg_start, msg_rule, msg_fetching, msg_fetched 1]\<rparr>"
      by (simp add: emit_def state_old_def)
    have "name42 \<in> fst ` set (files (state_old\<lparr>out := [msg_start, msg_rule, msg_fetching, msg_fetched 1]\<rparr>))"
      by (simp add: state_old_def)
    from process_issue_exists [of issue42 "ustr ''Hello World''" env42 issue42 name42
      "header42 @ ustr ''some text''", unfolded issue42_fields(1), OF _ _ _ _ _ this]
    have "process_issue env42 (state_old\<lparr>out := [msg_start, msg_rule, msg_fetching, msg_fetched 1]\<rparr>)
        issue42 = (final_old\<lparr>out := take 6 (out final_old)\<rparr>, None)"
      by (simp add: issue42_fields try_get_env42 convert_env42)
         (simp add: emit_def state_old_def final_old_def)
    with e show ?thesis by simp
  qed
  have m: "md_files (final_old\<lparr>out := take 6 (out final_old)\<rparr>) = [name42]"
    by (simp add: md_files_def final_old_def name42_md)
  have su: "summary_lines env42 (final_old\<lparr>out := take 6 (out final_old)\<rparr>) = drop 6 (out final_old)"
    by (simp add: summary_lines_def m env42_sel) (simp add: final_old_def)
  have "generate_articles env42 state_old =
      ((final_old\<lparr>out := take 6 (out final_old)\<rparr>)\<lparr>out := take 6 (out final_old) @ drop 6 (out final_old)\<rparr>, None)"
    unfolding generate_articles_def get_all_issues_def Let_def
    using p su by (simp add: try_get_env42)
  then show ?thesis by simp
qed


text \<open>
  Claim C7. When the name generated for a record is already in the directory, the pass of
  the loop ends without an exception, with the files and the counter as they were and the
  two lines (record, already exists) printed. And whatever a run of \<open>generate_articles\<close>
  does, however it ends, every file that was in the directory before is there afterwards
  with the same content.
\<close>

theorem existing_file_skipped:
  "(truthy (get_or issue (ustr ''number'') PyNone) \<and>
    and_then (getitem issue (ustr ''title'')) slice50 = Inr title50 \<and>
    try_get e (detail_reply e (get_or issue (ustr ''number'') PyNone)) = Returned d \<and>
    d \<noteq> [] \<and>
    convert_to_jekyll_post e d = Inr (filename, content) \<and>
    filename \<in> fst ` set (files st) \<longrightarrow>
      (\<exists>st1. process_issue e st issue = (st1, None) \<and> files st1 = files st \<and>
         generated_count st1 = generated_count st \<and>
         out st1 = out st @
           [msg_processing (get_or issue (ustr ''number'') PyNone) title50,
            msg_exists filename])) \<and>
   (generate_articles e st = (st', r) \<and> map_of (files st) name = Some old \<longrightarrow>
      map_of (files st') name = Some old)"
proof (intro conjI impI)
  assume a: "truthy (get_or issue (ustr ''number'') PyNone) \<and>
    and_then (getitem issue (ustr ''title'')) slice50 = Inr title50 \<and>
    try_get e (detail_reply e (get_or issue (ustr ''number'') PyNone)) = Returned d \<and>
    d \<noteq> [] \<and>
    convert_to_jekyll_post e d = Inr (filename, content) \<and>
    filename \<in> fst ` set (files st)"
  then have "process_issue e st issue =
     (emit (emit st (msg_processing (get_or issue (ustr ''number'') PyNone) title50))
        (msg_exists filename), None)"
    using process_issue_exists [of issue title50 e d filename content st] by blast
  then show "\<exists>st1. process_issue e st issue = (st1, None) \<and> files st1 = files st \<and>
         generated_count st1 = generated_count st \<and>
         out st1 = out st @
           [msg_processing (get_or issue (ustr ''number'') PyNone) title50,
            msg_exists filename]" by simp
next
  assume "generate_articles e st = (st', r) \<and> map_of (files st) name = Some old"
  then show "map_of (files st') name = Some old"
    using generate_articles_keeps [of e st st' r] by (simp add: keeps_def)
qed

theorem existing_file_skipped_witness:
  "name42 \<in> fst ` set (files state_old) \<and>
   convert_to_jekyll_post env42 issue42 = Inr (name42, header42 @ ustr ''some text'') \<and>
   (\<exists>st1. process_issue env42 state_old issue42 = (st1, None) \<and> files st1 = files state_old \<and>
      generated_count st1 = generated_count state_old \<and>
      out st1 = out state_old @
        [msg_processing (PyInt 42) (ustr ''Hello World''), msg_exists name42]) \<and>
   generate_articles env42 state_old = (final_old, None) \<and>
   map_of (files state_old) name42 = Some (ustr ''old'') \<and>
   map_of (files final_old) name42 = Some (ustr ''old'')"
proof -
  have h1: "truthy (get_or issue42 (ustr ''number'') PyNone)" by (simp add: issue42_fields)
  have h6: "name42 \<in> fst ` set (files state_old)" by (simp add: state_old_def)
  have m: "map_of (files state_old) name42 = Some (ustr ''old'')" by (simp add: state_old_def)
  note r = existing_file_skipped [of issue42 "ustr ''Hello World''" env42 issue42 name42
      "header42 @ ustr ''some text''" state_old final_old None name42 "ustr ''old''"]
  from r h1 issue42_fields(2) try_get_env42(2) issue42_fields(3) convert_env42 h6
    generate_env42_state_old m
  show ?thesis unfolding issue42_fields(1) by blast
qed

text \<open>
  Claim C8, as stated, has every response outside 200 to 299 treated as a failure. The
  fetcher relies on \<open>raise_for_status\<close>, which raises for the codes 400 to 599 only: a final
  response with code 300 and a JSON body is decoded and returned like a success, and no
  error is printed.
\<close>

theorem non_2xx_reply_returned:
  "error_or_non_2xx (list_reply env300) \<and>
   get_all_issues env300 state0 =
     (emit (emit state0 msg_fetching) (msg_fetched 1), Inr [issue42]) \<and>
   snd (get_all_issues env300 state0) \<noteq> Inr []"
proof -
  have l: "list_reply env300 = Response 300 (ustr ''Multiple Choices'') (Some [issue42])"
    by (simp add: env300_def)
  have a: "error_or_non_2xx (list_reply env300)"
    by (simp add: l error_or_non_2xx_def)
  have b: "get_all_issues env300 state0 =
     (emit (emit state0 msg_fetching) (msg_fetched 1), Inr [issue42])"
    by (simp add: get_all_issues_def l try_get_def raise_for_status_def)
  from a b show ?thesis by simp
qed

text \<open>
  Claim C8, amended. When the request raises a \<open>RequestException\<close> or the response has a
  status code from 400 to 599, \<open>get_all_issues\<close> prints the error and returns the empty
  list, and \<open>get_issue_content\<close> prints the error and returns \<open>None\<close>; nothing is raised.
  In the loop, a record with a number and a string title whose detail request fails so is
  skipped: the loop goes on with the next record, having only printed two lines.
\<close>

theorem fetch_failures_caught:
  "(http_failure (list_reply e) \<longrightarrow>
      get_all_issues e st =
        (emit (emit st msg_fetching) (msg_list_failed (failure_text (list_reply e))), Inr [])) \<and>
   (http_failure (detail_reply e n) \<longrightarrow>
      get_issue_content e st n =
        (emit st (msg_detail_failed n (failure_text (detail_reply e n))), Inr None)) \<and>
   (truthy (get_or issue (ustr ''number'') PyNone) \<and>
    getitem issue (ustr ''title'') = Inr (PyStr t) \<and>
    http_failure (detail_reply e (get_or issue (ustr ''number'') PyNone)) \<longrightarrow>
      process_issues e st (issue # issues) =
        process_issues e
          (emit (emit st (msg_processing (get_or issue (ustr ''number'') PyNone) (take 50 t)))
             (msg_detail_failed (get_or issue (ustr ''number'') PyNone)
                (failure_text (detail_reply e (get_or issue (ustr ''number'') PyNone)))))
          issues)"
  by (simp add: get_all_issues_failure get_issue_content_failure process_issue_detail_failure)

theorem fetch_failures_caught_witness:
  "http_failure (list_reply env_down) \<and>
   get_all_issues env_down state0 =
     (emit (emit state0 msg_fetching) (msg_list_failed (ustr ''timed out'')), Inr []) \<and>
   http_failure (detail_reply env_down (PyInt 42)) \<and>
   get_issue_content env_down state0 (PyInt 42) =
     (emit state0 (msg_detail_failed (PyInt 42) (ustr ''404 Client Error'')), Inr None) \<and>
   process_issues env_down state0 [issue42, issue42] =
     process_issues env_down
       (emit (emit state0 (msg_processing (PyInt 42) (ustr ''Hello World'')))
          (msg_detail_failed (PyInt 42) (ustr ''404 Client Error'')))
       [issue42]"
proof -
  have n: "truthy (get_or issue42 (ustr ''number'') PyNone)" by (simp add: issue42_fields)
  note r = fetch_failures_caught [of env_down state0 "PyInt 42" issue42 "ustr ''Hello World''" "[issue42]",
      unfolded issue42_fields(1) env_down_failures(3,4) take50_hello]
  from r n issue42_title env_down_failures(1) env_down_failures(2) [of "PyInt 42"]
  show ?thesis unfolding issue42_fields(1) by blast
qed













end
